(* ===== verification/Prelude.thy ===== *)
theory Prelude
  imports Main "HOL-Library.Word" "HOL-Library.AList" "HOL-Library.List_Lexorder"
begin

text \<open>
  Shared vocabulary of the development: the machine integers and byte strings of the
  Rust sources, panics as values, arithmetic under the two build profiles of Cargo, and the
  standard containers the sources use.

  \<^item> A \<^verbatim>\<open>BTreeMap\<close> is an association list whose keys are strictly ascending
    (\<open>bt_ok\<close>); iteration order is list order.
  \<^item> A \<^verbatim>\<open>HashMap\<close> that is only looked up, inserted into and removed from is a
    map \<open>'k \<rightharpoonup> 'v\<close>; one that is also iterated or counted is an association list with
    distinct keys whose order stands for the unspecified iteration order.
  \<^item> A \<^verbatim>\<open>Vec\<close> or \<^verbatim>\<open>VecDeque\<close> is a list.
\<close>

section \<open>Integers, bytes and panics\<close>

type_synonym u8 = "8 word"
type_synonym u32 = "32 word"
type_synonym u64 = "64 word"
type_synonym u256 = "256 word"
type_synonym evm_address = "160 word"
type_synonym bytes = "u8 list"

text \<open>
  The named collections of the development: \<open>panic_simps\<close> evaluates fallible
  sequencing, \<open>bt_laws\<close> are the laws of the ordered map.
\<close>

named_theorems panic_simps
named_theorems bt_laws

datatype build_profile = Debug | Release

datatype rust_panic =
    ArithmeticOverflow
  | ExpectFailed string
  | InvalidSlabKey
  | SliceLength

text \<open>Sequencing of computations that may panic: a panic skips the rest.\<close>

definition bindR :: "'e + 'a \<Rightarrow> ('a \<Rightarrow> 'e + 'b) \<Rightarrow> 'e + 'b" where
  "bindR m f = (case m of Inl e \<Rightarrow> Inl e | Inr x \<Rightarrow> f x)"

lemma bindR_simps [simp, panic_simps]:
  "bindR (Inr x) f = f x" "bindR (Inl e) f = Inl e"
  by (simp_all add: bindR_def)

lemma bindR_eq_Inr [panic_simps]:
  "bindR m f = Inr y \<longleftrightarrow> (\<exists>x. m = Inr x \<and> f x = Inr y)"
  by (cases m) auto

text \<open>
  Rust checks \<^verbatim>\<open>+\<close> for overflow in the debug profile and wraps in the release
  profile; the workspace sets neither profile's \<^verbatim>\<open>overflow-checks\<close>.
\<close>

definition add_u64 :: "build_profile \<Rightarrow> u64 \<Rightarrow> u64 \<Rightarrow> rust_panic + u64" where
  "add_u64 prof a b =
     (if unat a + unat b < 2 ^ 64 then Inr (a + b)
      else case prof of Debug \<Rightarrow> Inl ArithmeticOverflow | Release \<Rightarrow> Inr (a + b))"

lemma add_u64_exact:
  "unat a + unat b < 2 ^ 64 \<Longrightarrow> add_u64 prof a b = Inr (a + b) \<and> unat (a + b) = unat a + unat b"
  by (simp add: add_u64_def unat_word_ariths)

lemma add_u64_release: "add_u64 Release a b = Inr (a + b)"
  by (simp add: add_u64_def)

text \<open>The same for 32-bit signed integers, as integers in their range.\<close>

definition i32_ok :: "int \<Rightarrow> bool" where
  "i32_ok i \<longleftrightarrow> - (2 ^ 31) \<le> i \<and> i < 2 ^ 31"

definition wrap_i32 :: "int \<Rightarrow> int" where
  "wrap_i32 i = (i + 2 ^ 31) mod 2 ^ 32 - 2 ^ 31"

definition add_i32 :: "build_profile \<Rightarrow> int \<Rightarrow> int \<Rightarrow> rust_panic + int" where
  "add_i32 prof a b =
     (if i32_ok (a + b) then Inr (a + b)
      else case prof of Debug \<Rightarrow> Inl ArithmeticOverflow | Release \<Rightarrow> Inr (wrap_i32 (a + b)))"

lemma add_i32_exact: "i32_ok (a + b) \<Longrightarrow> add_i32 prof a b = Inr (a + b)"
  by (simp add: add_i32_def)

fun sum_u64_from :: "build_profile \<Rightarrow> u64 \<Rightarrow> u64 list \<Rightarrow> rust_panic + u64" where
  "sum_u64_from prof acc [] = Inr acc"
| "sum_u64_from prof acc (x # xs) = bindR (add_u64 prof acc x) (\<lambda>acc'. sum_u64_from prof acc' xs)"

text \<open>\<^verbatim>\<open>Iterator::sum\<close> adds from the left, starting at zero.\<close>

definition sum_u64 :: "build_profile \<Rightarrow> u64 list \<Rightarrow> rust_panic + u64" where
  "sum_u64 prof xs = sum_u64_from prof 0 xs"

lemma sum_u64_from_exact:
  "unat acc + sum_list (map unat xs) < 2 ^ 64 \<Longrightarrow>
     \<exists>r. sum_u64_from prof acc xs = Inr r \<and> unat r = unat acc + sum_list (map unat xs)"
proof (induction xs arbitrary: acc)
  case Nil
  then show ?case by simp
next
  case (Cons x xs)
  then have lt: "unat acc + unat x < 2 ^ 64"
    by simp
  note add = add_u64_exact [OF lt, of prof]
  with Cons.prems have "unat (acc + x) + sum_list (map unat xs) < 2 ^ 64"
    by simp
  from Cons.IH [OF this] add show ?case
    by (auto simp: add.assoc)
qed

lemma sum_u64_exact:
  "sum_list (map unat xs) < 2 ^ 64 \<Longrightarrow>
     \<exists>r. sum_u64 prof xs = Inr r \<and> unat r = sum_list (map unat xs)"
  using sum_u64_from_exact [of 0 xs prof] by (simp add: sum_u64_def)

lemma sum_u64_from_overflow:
  "2 ^ 64 \<le> unat acc + sum_list (map unat xs) \<Longrightarrow> sum_u64_from Debug acc xs = Inl ArithmeticOverflow"
proof (induction xs arbitrary: acc)
  case Nil
  then show ?case
    using unsigned_less [of acc, where ?'a = nat] by simp
next
  case (Cons x xs)
  show ?case
  proof (cases "unat acc + unat x < 2 ^ 64")
    case True
    then have "unat (acc + x) = unat acc + unat x" "add_u64 Debug acc x = Inr (acc + x)"
      using add_u64_exact by blast+
    with Cons show ?thesis
      by (simp add: add.assoc)
  qed (simp add: add_u64_def)
qed

lemma sum_u64_overflow: "2 ^ 64 \<le> sum_list (map unat xs) \<Longrightarrow> sum_u64 Debug xs = Inl ArithmeticOverflow"
  by (simp add: sum_u64_def sum_u64_from_overflow)

text \<open>\<^verbatim>\<open>u64::to_be_bytes\<close>: the eight bytes, most significant first.\<close>

definition to_be_bytes :: "u64 \<Rightarrow> bytes" where
  "to_be_bytes w = map (\<lambda>i. ucast (drop_bit (8 * i) w)) [7, 6, 5, 4, 3, 2, 1, 0]"

lemma length_to_be_bytes [simp]: "length (to_be_bytes w) = 8"
  by (simp add: to_be_bytes_def)

text \<open>\<^verbatim>\<open>u64::from_be_bytes\<close>, its inverse.\<close>

definition from_be_bytes :: "bytes \<Rightarrow> u64" where
  "from_be_bytes bs = word_of_nat (foldl (\<lambda>a b. a * 256 + unat b) 0 bs)"

lemma byte_digit: "unat (ucast (drop_bit (8 * k) w :: u64) :: u8) = unat w div 256 ^ k mod 256"
proof -
  have "unat (ucast (drop_bit (8 * k) w) :: u8) = take_bit 8 (drop_bit (8 * k) (unat w))"
    using unsigned_less [of w, where ?'a = nat]
    by (simp add: unsigned_ucast_eq unsigned_drop_bit_eq take_bit_nat_eq_self)
  then show ?thesis
    by (simp add: take_bit_eq_mod drop_bit_eq_div power_mult)
qed

lemma horner_step: "n div 256 ^ Suc k * 256 + n div 256 ^ k mod 256 = n div 256 ^ k" for n k :: nat
proof -
  have "n div 256 ^ Suc k = n div 256 ^ k div 256"
    by (simp only: power_Suc2 div_mult2_eq)
  then show ?thesis
    by (simp only: div_mult_mod_eq)
qed

lemma horner_digits:
  "foldl (\<lambda>a b. a * 256 + unat b) (unat w div 256 ^ k)
     (map (\<lambda>i. ucast (drop_bit (8 * i) w :: u64) :: u8) (rev [0..<k])) = unat w"
proof (induction k)
  case (Suc k)
  have "unat w div 256 ^ Suc k * 256 + unat (ucast (drop_bit (8 * k) w) :: u8) = unat w div 256 ^ k"
    unfolding byte_digit by (rule horner_step)
  with Suc show ?case
    by (simp del: power_Suc)
qed simp

lemma from_to_be_bytes [simp]: "from_be_bytes (to_be_bytes w) = w"
proof -
  have "unat w < 256 ^ 8"
    using unsigned_less [of w, where ?'a = nat] by simp
  then have "unat w div 256 ^ 8 = 0"
    by (rule div_less)
  moreover have "rev [0..<8] = [7, 6, 5, 4, 3, 2, 1, 0]"
    by (simp add: upt_rec numeral_eq_Suc)
  ultimately have "foldl (\<lambda>a b. a * 256 + unat b) 0 (to_be_bytes w) = unat w"
    using horner_digits [of w 8] unfolding to_be_bytes_def by argo
  then show ?thesis
    by (simp add: from_be_bytes_def)
qed

lemma to_be_bytes_inj: "to_be_bytes v = to_be_bytes w \<longleftrightarrow> v = w"
  by (metis from_to_be_bytes)

section \<open>Ordered maps\<close>

type_synonym ('k, 'v) btree = "('k \<times> 'v) list"

definition bt_ok :: "('k::linorder, 'v) btree \<Rightarrow> bool" where
  "bt_ok m \<longleftrightarrow> sorted_wrt (<) (map fst m)"

fun bt_insert :: "'k::linorder \<Rightarrow> 'v \<Rightarrow> ('k, 'v) btree \<Rightarrow> ('k, 'v) btree" where
  "bt_insert k v [] = [(k, v)]"
| "bt_insert k v ((a, b) # m) =
     (if k < a then (k, v) # (a, b) # m
      else if k = a then (k, v) # m
      else (a, b) # bt_insert k v m)"

definition bt_remove :: "'k \<Rightarrow> ('k, 'v) btree \<Rightarrow> ('k, 'v) btree" where
  "bt_remove k m = filter (\<lambda>p. fst p \<noteq> k) m"

definition bt_get :: "('k, 'v) btree \<Rightarrow> 'k \<Rightarrow> 'v option" where
  "bt_get m k = map_of m k"

definition bt_first :: "('k, 'v) btree \<Rightarrow> ('k \<times> 'v) option" where
  "bt_first m = (case m of [] \<Rightarrow> None | p # _ \<Rightarrow> Some p)"

definition bt_last :: "('k, 'v) btree \<Rightarrow> ('k \<times> 'v) option" where
  "bt_last m = (if m = [] then None else Some (last m))"

lemma bt_ok_Nil [simp]: "bt_ok []"
  by (simp add: bt_ok_def)

lemma bt_ok_Cons: "bt_ok ((k, v) # m) \<longleftrightarrow> (\<forall>x \<in> fst ` set m. k < x) \<and> bt_ok m"
  by (auto simp: bt_ok_def)

lemma bt_ok_distinct: "bt_ok m \<Longrightarrow> distinct (map fst m)"
  by (simp add: bt_ok_def strict_sorted_iff)

lemma keys_bt_insert [simp]: "fst ` set (bt_insert k v m) = insert k (fst ` set m)"
  by (induction k v m rule: bt_insert.induct) auto

lemma bt_insert_ok [bt_laws]: "bt_ok m \<Longrightarrow> bt_ok (bt_insert k v m)"
  by (induction k v m rule: bt_insert.induct) (auto simp: bt_ok_Cons)

lemma bt_get_insert [bt_laws]: "bt_get (bt_insert k v m) = (bt_get m)(k \<mapsto> v)"
  unfolding bt_get_def
  by (induction k v m rule: bt_insert.induct) (auto simp: fun_eq_iff)

lemma bt_remove_ok [bt_laws]: "bt_ok m \<Longrightarrow> bt_ok (bt_remove k m)"
  by (induction m) (auto simp: bt_remove_def bt_ok_Cons)

lemma bt_get_remove [bt_laws]: "bt_get (bt_remove k m) = (bt_get m)(k := None)"
  unfolding bt_get_def bt_remove_def
  by (induction m) (auto simp: fun_eq_iff)

lemma bt_get_Some_iff: "bt_ok m \<Longrightarrow> bt_get m k = Some v \<longleftrightarrow> (k, v) \<in> set m"
  by (simp add: bt_get_def bt_ok_distinct)

lemma bt_remove_notin: "k \<notin> fst ` set m \<Longrightarrow> bt_remove k m = m"
  unfolding bt_remove_def by (rule filter_True) auto

lemma bt_ok_append:
  "bt_ok (m @ n) \<longleftrightarrow> bt_ok m \<and> bt_ok n \<and> (\<forall>x \<in> fst ` set m. \<forall>y \<in> fst ` set n. x < y)"
  by (auto simp: bt_ok_def sorted_wrt_append)

text \<open>Replacing or removing the value at a key that splits the map.\<close>

lemma bt_insert_mid:
  "bt_ok (m @ (k, v) # n) \<Longrightarrow> bt_insert k w (m @ (k, v) # n) = m @ (k, w) # n"
  by (induction m) (force simp: bt_ok_append bt_ok_Cons)+

lemma bt_remove_mid: "bt_ok (m @ (k, v) # n) \<Longrightarrow> bt_remove k (m @ (k, v) # n) = m @ n"
  using bt_remove_notin [of k m] bt_remove_notin [of k n]
  by (fastforce simp: bt_remove_def bt_ok_append bt_ok_Cons)

text \<open>The last entry of an ordered map is the one with the greatest key.\<close>

lemma bt_last_Some:
  assumes "bt_ok m" "bt_last m = Some (k, v)"
  shows "bt_get m k = Some v" "\<forall>x \<in> fst ` set m. x \<le> k"
proof -
  from assms(2) obtain m' where m: "m = m' @ [(k, v)]"
    by (auto simp: bt_last_def split: if_splits) (metis append_butlast_last_id)
  with assms(1) show "bt_get m k = Some v"
    by (simp add: bt_get_Some_iff)
  from assms(1) show "\<forall>x \<in> fst ` set m. x \<le> k"
    by (auto simp: m bt_ok_append less_imp_le)
qed

section \<open>Runs of steps that may panic\<close>

text \<open>
  A handler is a step \<open>'e \<Rightarrow> 's \<Rightarrow> rust_panic + 's\<close>; a run feeds it a sequence of inputs
  and stops at the first panic.
\<close>

fun run_steps :: "('e \<Rightarrow> 's \<Rightarrow> rust_panic + 's) \<Rightarrow> 'e list \<Rightarrow> 's \<Rightarrow> rust_panic + 's" where
  "run_steps step [] s = Inr s"
| "run_steps step (e # es) s = bindR (step e s) (run_steps step es)"

lemma run_steps_append:
  "run_steps step (es @ es') s = bindR (run_steps step es s) (run_steps step es')"
  by (induction es arbitrary: s) (auto simp: bindR_def split: sum.splits)

text \<open>
  The contract of a component whose handler, on inputs that meet \<open>ok\<close>, never panics from a
  state of the invariant and keeps the invariant.
\<close>

locale panic_free =
  fixes step :: "'e \<Rightarrow> 's \<Rightarrow> rust_panic + 's" and inv :: "'s \<Rightarrow> bool" and ok :: "'e \<Rightarrow> bool"
  assumes step_safe: "inv s \<Longrightarrow> ok e \<Longrightarrow> \<exists>s'. step e s = Inr s' \<and> inv s'"
begin

lemma run_safe: "inv s \<Longrightarrow> \<forall>e \<in> set es. ok e \<Longrightarrow> \<exists>s'. run_steps step es s = Inr s' \<and> inv s'"
proof (induction es arbitrary: s)
  case (Cons e es)
  then obtain s' where "step e s = Inr s'" "inv s'"
    using step_safe [of s e] by auto
  with Cons show ?case
    by auto
qed simp

lemma run_inv: "inv s \<Longrightarrow> \<forall>e \<in> set es. ok e \<Longrightarrow> run_steps step es s = Inr s' \<Longrightarrow> inv s'"
  using run_safe [of s es] by auto

end

end
