(* ===== verification/Slab_Store.thy ===== *)
theory Slab_Store
  imports Prelude
begin

text \<open>
  The interface of the \<^verbatim>\<open>slab\<close> crate, which the order book uses for its
  orders and which is not part of the repository. The operations are a record that every
  definition of the order book takes as an argument; the locale \<open>slab\<close> states the
  documented behaviour the order book relies on. \<open>vec_slab\<close> is an instance for the
  examples, a vector of slots with a stack of the keys that were released.
\<close>

record ('a, 's) slab_ops =
  slab_new :: "'s"
  slab_insert :: "'a \<Rightarrow> 's \<Rightarrow> nat \<times> 's"
  slab_get :: "'s \<Rightarrow> nat \<Rightarrow> 'a option"
  slab_set :: "nat \<Rightarrow> 'a \<Rightarrow> 's \<Rightarrow> 's"
  slab_remove :: "nat \<Rightarrow> 's \<Rightarrow> rust_panic + 'a \<times> 's"

text \<open>
  \<open>slab_set\<close> is an assignment through the reference that \<^verbatim>\<open>get_mut\<close>
  returns. \<^verbatim>\<open>insert\<close> hands out a key that was vacant,
  \<^verbatim>\<open>remove\<close> panics on a vacant key, and no operation touches another key.
\<close>

locale slab =
  fixes SO :: "('a, 's) slab_ops"
  assumes get_new: "slab_get SO (slab_new SO) = Map.empty"
    and insert_vacant: "slab_insert SO v s = (k, s') \<Longrightarrow> slab_get SO s k = None"
    and get_insert: "slab_insert SO v s = (k, s') \<Longrightarrow> slab_get SO s' = (slab_get SO s)(k \<mapsto> v)"
    and get_set: "slab_get SO s k = Some w \<Longrightarrow>
      slab_get SO (slab_set SO k v s) = (slab_get SO s)(k \<mapsto> v)"
    and remove_occupied: "slab_get SO s k = Some v \<Longrightarrow>
      \<exists>s'. slab_remove SO k s = Inr (v, s') \<and> slab_get SO s' = (slab_get SO s)(k := None)"
    and remove_vacant: "slab_get SO s k = None \<Longrightarrow> slab_remove SO k s = Inl InvalidSlabKey"
begin

lemma remove_occupiedE:
  assumes "slab_get SO s k = Some v"
  obtains s' where "slab_remove SO k s = Inr (v, s')"
    and "slab_get SO s' = (slab_get SO s)(k := None)"
  using remove_occupied [OF assms] by blast

lemma insertE:
  obtains k s' where "slab_insert SO v s = (k, s')" and "slab_get SO s k = None"
    and "slab_get SO s' = (slab_get SO s)(k \<mapsto> v)"
  using insert_vacant get_insert by (cases "slab_insert SO v s") blast

end

section \<open>A vector of slots\<close>

type_synonym 'a slots = "'a option list \<times> nat list"

definition vec_get :: "'a slots \<Rightarrow> nat \<Rightarrow> 'a option" where
  "vec_get s k = (if k < length (fst s) then fst s ! k else None)"

definition vec_insert :: "'a \<Rightarrow> 'a slots \<Rightarrow> nat \<times> 'a slots" where
  "vec_insert v s =
     (case snd s of
        k # free \<Rightarrow> if k < length (fst s) \<and> fst s ! k = None then (k, ((fst s)[k := Some v], free))
                    else (length (fst s), (fst s @ [Some v], free))
      | [] \<Rightarrow> (length (fst s), (fst s @ [Some v], [])))"

definition vec_set :: "nat \<Rightarrow> 'a \<Rightarrow> 'a slots \<Rightarrow> 'a slots" where
  "vec_set k v s = ((fst s)[k := Some v], snd s)"

definition vec_remove :: "nat \<Rightarrow> 'a slots \<Rightarrow> rust_panic + 'a \<times> 'a slots" where
  "vec_remove k s = (case vec_get s k of None \<Rightarrow> Inl InvalidSlabKey | Some v \<Rightarrow> Inr (v, ((fst s)[k := None], k # snd s)))"

definition vec_slab :: "('a, 'a slots) slab_ops" where
  "vec_slab = \<lparr>slab_new = ([], []), slab_insert = vec_insert, slab_get = vec_get,
     slab_set = vec_set, slab_remove = vec_remove\<rparr>"

lemma vec_slab_sel [simp]:
  "slab_new vec_slab = ([], [])" "slab_insert vec_slab = vec_insert" "slab_get vec_slab = vec_get"
  "slab_set vec_slab = vec_set" "slab_remove vec_slab = vec_remove"
  by (simp_all add: vec_slab_def)

lemma vec_get_update: "k < length xs \<Longrightarrow> vec_get (xs[k := x], free) = (vec_get (xs, free'))(k := x)"
  by (auto simp: vec_get_def fun_eq_iff nth_list_update)

lemma vec_get_append: "vec_get (xs @ [Some v], free) = (vec_get (xs, free'))(length xs \<mapsto> v)"
  by (auto simp: vec_get_def fun_eq_iff nth_append)

lemma vec_get_SomeD: "vec_get s k = Some v \<Longrightarrow> k < length (fst s)"
  by (simp add: vec_get_def split: if_splits)

interpretation vs: slab vec_slab
proof
  fix k :: nat and v :: 'a and s s'
  assume "slab_insert vec_slab v s = (k, s')"
  then show "slab_get vec_slab s k = None" "slab_get vec_slab s' = (slab_get vec_slab s)(k \<mapsto> v)"
    by (cases s; auto simp: vec_insert_def vec_get_append vec_get_update split: list.splits if_splits; simp add: vec_get_def)+
next
  fix k :: nat and v w :: 'a and s
  assume "slab_get vec_slab s k = Some v"
  then show "slab_get vec_slab (slab_set vec_slab k w s) = (slab_get vec_slab s)(k \<mapsto> w)"
    by (cases s) (auto simp: vec_set_def intro!: vec_get_update dest: vec_get_SomeD)
next
  fix k :: nat and v :: 'a and s
  assume "slab_get vec_slab s k = Some v"
  then show "\<exists>s'. slab_remove vec_slab k s = Inr (v, s') \<and> slab_get vec_slab s' = (slab_get vec_slab s)(k := None)"
    by (cases s) (auto simp: vec_remove_def intro!: vec_get_update dest: vec_get_SomeD)
qed (simp_all add: vec_remove_def vec_get_def fun_eq_iff)

text \<open>The key released last is handed out next.\<close>

lemma vec_reuse: "slab_remove vec_slab k s = Inr (v, s') \<Longrightarrow> fst (slab_insert vec_slab w s') = k"
  by (auto simp: vec_remove_def vec_insert_def dest: vec_get_SomeD split: option.splits)

end
