(* ===== verification/Order_Book.thy ===== *)
theory Order_Book
  imports Slab_Store
begin

text \<open>
  The limit order book of \<^verbatim>\<open>zkapp/engine/src/lib.rs\<close>: its data, the taker
  phase as two nested loops, the maker phase, cancellation and the depth query. The slab
  operations are the argument \<open>SO\<close>. A panic of the source (a stale index in a
  price queue, removal of a vacant slab key) is an \<open>Inl\<close> result.
\<close>

section \<open>Data\<close>

type_synonym OrderId = u64
type_synonym UserId = u64
type_synonym Price = u64
type_synonym Quantity = u64

datatype Side = Bid | Ask

fun opposite :: "Side \<Rightarrow> Side" where
  "opposite Bid = Ask"
| "opposite Ask = Bid"

record Order =
  o_id :: OrderId
  o_user_id :: UserId
  o_price :: Price
  o_quantity :: Quantity
  o_side :: Side
  o_timestamp :: u64

datatype EngineEvent =
    OrderPlaced OrderId UserId Price Quantity Side
  | OrderCancelled OrderId
  | TradeExecuted (maker_id: OrderId) (taker_id: OrderId) (trade_price: Price) (trade_qty: Quantity)
  | IntentResolved string string u64

record OrderLevel =
  l_price :: Price
  l_quantity :: Quantity

datatype LogEntry =
    Place OrderId UserId Side Price Quantity
  | Cancel OrderId UserId

type_synonym levels = "(Price, nat list) btree"

record 's OrderBook =
  order_store :: "'s"
  bids :: levels
  asks :: levels
  order_index :: "OrderId \<rightharpoonup> nat"
  sequence_no :: u64

definition new_book :: "(Order, 's) slab_ops \<Rightarrow> 's OrderBook" where
  "new_book SO = \<lparr>order_store = slab_new SO, bids = [], asks = [],
     order_index = Map.empty, sequence_no = 0\<rparr>"

section \<open>The taker phase\<close>

text \<open>
  The inner loop drains one price level: \<open>match_level SO oid uid bp qty st q\<close> runs
  \<^verbatim>\<open>while let Some(&maker_idx) = order_queue.front()\<close> on the queue
  \<open>q\<close> and returns the remaining quantity, the store, the queue and the events.
\<close>

lemma bindR_cong [fundef_cong]:
  "m = m' \<Longrightarrow> (\<And>x. m' = Inr x \<Longrightarrow> f x = g x) \<Longrightarrow> bindR m f = bindR m' g"
  by (cases m') auto

function match_level ::
  "(Order, 's) slab_ops \<Rightarrow> OrderId \<Rightarrow> UserId \<Rightarrow> Price \<Rightarrow> Quantity \<Rightarrow> 's \<Rightarrow> nat list \<Rightarrow>
     rust_panic + Quantity \<times> 's \<times> nat list \<times> EngineEvent list" where
  "match_level SO oid uid bp qty st [] = Inr (qty, st, [], [])"
| "match_level SO oid uid bp qty st (idx # q) =
     (case slab_get SO st idx of
        None \<Rightarrow> Inl (ExpectFailed ''Stale index in queue'')
      | Some mk \<Rightarrow>
          if o_user_id mk = uid then
            bindR (slab_remove SO idx st) (\<lambda>(_, st').
            bindR (match_level SO oid uid bp qty st' q) (\<lambda>(qty', st'', q', evs).
              Inr (qty', st'', q', OrderCancelled (o_id mk) # evs)))
          else
            let tq = min qty (o_quantity mk);
                ev = TradeExecuted (o_id mk) oid bp tq;
                qty' = qty - tq;
                mk' = mk\<lparr>o_quantity := o_quantity mk - tq\<rparr>;
                st' = slab_set SO idx mk' st
            in bindR (if o_quantity mk' = 0
                      then bindR (slab_remove SO idx st') (\<lambda>(_, st''). Inr (st'', q))
                      else Inr (st', idx # q)) (\<lambda>(st'', q').
               if qty' = 0 then Inr (qty', st'', q', [ev])
               else bindR (match_level SO oid uid bp qty' st'' q') (\<lambda>(qty'', st''', q'', evs).
                 Inr (qty'', st''', q'', ev # evs))))"
  by pat_completeness auto
termination
  by (relation "measure (\<lambda>(SO, oid, uid, bp, qty, st, q). length q)")
     (auto simp: panic_simps min_def split: if_splits)

text \<open>
  The second equation calls the loop on the same queue when the maker is not exhausted, a
  branch the break excludes, so it is unfolded only through the following elimination rule:
  a successful run of the loop body cancels the maker, fills it and goes on, fills it and
  stops, or fills it partly and stops.
\<close>

declare match_level.simps(2) [simp del]

lemma match_level_ConsE:
  assumes "match_level SO oid uid bp qty st (idx # q) = Inr (qty', st', q', evs)"
  obtains
    (self) mk x st1 evs1 where "slab_get SO st idx = Some mk" "o_user_id mk = uid"
      "slab_remove SO idx st = Inr (x, st1)"
      "match_level SO oid uid bp qty st1 q = Inr (qty', st', q', evs1)"
      "evs = OrderCancelled (o_id mk) # evs1"
  | (fill) mk x st1 evs1 where "slab_get SO st idx = Some mk" "o_user_id mk \<noteq> uid"
      "o_quantity mk < qty"
      "slab_remove SO idx (slab_set SO idx (mk\<lparr>o_quantity := 0\<rparr>) st) = Inr (x, st1)"
      "match_level SO oid uid bp (qty - o_quantity mk) st1 q = Inr (qty', st', q', evs1)"
      "evs = TradeExecuted (o_id mk) oid bp (o_quantity mk) # evs1"
  | (stop) mk x where "slab_get SO st idx = Some mk" "o_user_id mk \<noteq> uid"
      "o_quantity mk = qty"
      "slab_remove SO idx (slab_set SO idx (mk\<lparr>o_quantity := 0\<rparr>) st) = Inr (x, st')"
      "qty' = 0" "q' = q" "evs = [TradeExecuted (o_id mk) oid bp qty]"
  | (partly) mk where "slab_get SO st idx = Some mk" "o_user_id mk \<noteq> uid"
      "qty < o_quantity mk"
      "st' = slab_set SO idx (mk\<lparr>o_quantity := o_quantity mk - qty\<rparr>) st"
      "qty' = 0" "q' = idx # q" "evs = [TradeExecuted (o_id mk) oid bp qty]"
proof -
  from assms obtain mk where mk: "slab_get SO st idx = Some mk"
    by (auto simp: match_level.simps(2) split: option.splits)
  note run = assms [unfolded match_level.simps(2) mk option.case]
  show thesis
  proof (cases "o_user_id mk = uid")
    case True
    with run mk self show thesis
      by (auto simp: panic_simps)
  next
    case False
    consider "o_quantity mk < qty" | "o_quantity mk = qty" | "qty < o_quantity mk"
      by (meson linorder_less_linear)
    then show thesis
    proof cases
      case 1
      then have "min qty (o_quantity mk) = o_quantity mk" "qty - o_quantity mk \<noteq> 0"
        by auto
      with run mk False 1 fill show thesis
        by (auto simp: panic_simps Let_def)
    next
      case 2
      with run mk False stop show thesis
        by (auto simp: panic_simps Let_def)
    next
      case 3
      then have "min qty (o_quantity mk) = qty" "o_quantity mk - qty \<noteq> 0"
        by auto
      with run mk False 3 partly show thesis
        by (auto simp: panic_simps Let_def)
    qed
  qed
qed

text \<open>The inner loop ends with an exhausted queue or an exhausted taker.\<close>

lemma match_level_progress:
  "match_level SO oid uid bp qty st q = Inr (qty', st', q', evs) \<Longrightarrow> q' = [] \<or> qty' = 0"
proof (induction q arbitrary: uid qty st evs)
  case Nil
  then show ?case by simp
next
  case (Cons idx q)
  from Cons.prems show ?case
    by (cases rule: match_level_ConsE) (auto dest: Cons.IH)
qed

definition best_level :: "Side \<Rightarrow> levels \<Rightarrow> (Price \<times> nat list) option" where
  "best_level side lv = (case side of Bid \<Rightarrow> bt_first lv | Ask \<Rightarrow> bt_last lv)"

definition is_matchable :: "Side \<Rightarrow> Price \<Rightarrow> Price \<Rightarrow> bool" where
  "is_matchable side best_price price =
     (case side of Bid \<Rightarrow> best_price \<le> price | Ask \<Rightarrow> best_price \<ge> price)"

text \<open>
  Writing the drained queue back into its level and dropping the level when it is empty.
\<close>

definition write_level :: "Price \<Rightarrow> nat list \<Rightarrow> levels \<Rightarrow> levels" where
  "write_level bp q lv =
     (let lv' = bt_insert bp q lv in if q = [] then bt_remove bp lv' else lv')"

lemma best_level_mem: "best_level side lv = Some (bp, q) \<Longrightarrow> (bp, q) \<in> set lv"
  by (auto simp: best_level_def bt_first_def bt_last_def split: Side.splits list.splits if_splits)
     (metis last_in_set)

lemma bt_remove_insert [simp]: "bt_remove k (bt_insert k v m) = bt_remove k m"
  unfolding bt_remove_def by (induction k v m rule: bt_insert.induct) auto

lemma length_bt_remove: "(k, v) \<in> set m \<Longrightarrow> length (bt_remove k m) < length m"
  unfolding bt_remove_def by (rule length_filter_less) auto

text \<open>The outer loop, over the levels of the opposite side.\<close>

function match_loop ::
  "(Order, 's) slab_ops \<Rightarrow> OrderId \<Rightarrow> UserId \<Rightarrow> Side \<Rightarrow> Price \<Rightarrow> Quantity \<Rightarrow> 's \<Rightarrow> levels \<Rightarrow>
     rust_panic + Quantity \<times> 's \<times> levels \<times> EngineEvent list" where
  "match_loop SO oid uid side price qty st lv =
     (if qty = 0 then Inr (qty, st, lv, [])
      else case best_level side lv of
        None \<Rightarrow> Inr (qty, st, lv, [])
      | Some (bp, q) \<Rightarrow>
          if \<not> is_matchable side bp price then Inr (qty, st, lv, [])
          else bindR (match_level SO oid uid bp qty st q) (\<lambda>(qty', st', q', evs).
               bindR (match_loop SO oid uid side price qty' st' (write_level bp q' lv))
                 (\<lambda>(qty'', st'', lv'', evs'). Inr (qty'', st'', lv'', evs @ evs'))))"
  by pat_completeness auto
termination
proof (relation "measure (\<lambda>(SO, oid, uid, side, price, qty, st, lv). if qty = 0 then 0 else Suc (length lv))")
qed (auto simp: write_level_def Let_def dest!: match_level_progress best_level_mem length_bt_remove
       split: if_splits)

declare match_loop.simps [simp del]

section \<open>Operations of the book\<close>

definition opposite_levels :: "Side \<Rightarrow> 's OrderBook \<Rightarrow> levels" where
  "opposite_levels side b = (case side of Bid \<Rightarrow> asks b | Ask \<Rightarrow> bids b)"

definition set_opposite_levels :: "Side \<Rightarrow> levels \<Rightarrow> 's OrderBook \<Rightarrow> 's OrderBook" where
  "set_opposite_levels side lv b =
     (case side of Bid \<Rightarrow> b\<lparr>asks := lv\<rparr> | Ask \<Rightarrow> b\<lparr>bids := lv\<rparr>)"

text \<open>\<^verbatim>\<open>entry(price).or_insert_with(VecDeque::new)\<close> followed by \<^verbatim>\<open>push_back\<close>.\<close>

definition push_level :: "Price \<Rightarrow> nat \<Rightarrow> levels \<Rightarrow> levels" where
  "push_level price idx lv =
     bt_insert price ((case bt_get lv price of None \<Rightarrow> [] | Some q \<Rightarrow> q) @ [idx]) lv"

definition place_maker ::
  "(Order, 's) slab_ops \<Rightarrow> OrderId \<Rightarrow> UserId \<Rightarrow> Side \<Rightarrow> Price \<Rightarrow> Quantity \<Rightarrow> 's OrderBook \<Rightarrow> 's OrderBook" where
  "place_maker SO oid uid side price qty b =
     (let new_order = \<lparr>o_id = oid, o_user_id = uid, o_price = price, o_quantity = qty,
            o_side = side, o_timestamp = 0\<rparr>;
          (idx, st) = slab_insert SO new_order (order_store b);
          b' = b\<lparr>order_store := st, order_index := (order_index b)(oid \<mapsto> idx)\<rparr>
      in case side of
           Bid \<Rightarrow> b'\<lparr>bids := push_level price idx (bids b')\<rparr>
         | Ask \<Rightarrow> b'\<lparr>asks := push_level price idx (asks b')\<rparr>)"

definition place_limit_order ::
  "(Order, 's) slab_ops \<Rightarrow> OrderId \<Rightarrow> UserId \<Rightarrow> Side \<Rightarrow> Price \<Rightarrow> Quantity \<Rightarrow> 's OrderBook \<Rightarrow>
     rust_panic + 's OrderBook \<times> EngineEvent list" where
  "place_limit_order SO oid uid side price qty b =
     bindR (match_loop SO oid uid side price qty (order_store b) (opposite_levels side b))
       (\<lambda>(qty', st, lv, evs).
          let b' = set_opposite_levels side lv (b\<lparr>order_store := st\<rparr>)
          in if qty' > 0
             then Inr (place_maker SO oid uid side price qty' b',
                       evs @ [OrderPlaced oid uid price qty' side])
             else Inr (b', evs))"

text \<open>
  \<^verbatim>\<open>queue.retain(|&idx| idx != internal_idx)\<close> on the order's level, if there is one,
  and removal of the level when it becomes empty.
\<close>

definition retain_level :: "Price \<Rightarrow> nat \<Rightarrow> levels \<Rightarrow> levels" where
  "retain_level price idx lv =
     (case bt_get lv price of
        None \<Rightarrow> lv
      | Some q \<Rightarrow> write_level price (filter (\<lambda>i. i \<noteq> idx) q) lv)"

definition cancel_order ::
  "(Order, 's) slab_ops \<Rightarrow> OrderId \<Rightarrow> UserId \<Rightarrow> 's OrderBook \<Rightarrow>
     rust_panic + 's OrderBook \<times> EngineEvent list" where
  "cancel_order SO oid uid b =
     (case order_index b oid of
        None \<Rightarrow> Inr (b, [])
      | Some idx \<Rightarrow>
          (case slab_get SO (order_store b) idx of
             None \<Rightarrow> Inr (b, [])
           | Some ord \<Rightarrow>
               if o_user_id ord \<noteq> uid then Inr (b, [])
               else
                 let b' = (case o_side ord of
                             Bid \<Rightarrow> b\<lparr>bids := retain_level (o_price ord) idx (bids b)\<rparr>
                           | Ask \<Rightarrow> b\<lparr>asks := retain_level (o_price ord) idx (asks b)\<rparr>)
                 in bindR (slab_remove SO idx (order_store b')) (\<lambda>(_, st).
                      Inr (b'\<lparr>order_index := (order_index b')(oid := None), order_store := st\<rparr>,
                           [OrderCancelled oid]))))"

section \<open>Depth\<close>

definition level_depth ::
  "build_profile \<Rightarrow> (Order, 's) slab_ops \<Rightarrow> 's \<Rightarrow> Price \<times> nat list \<Rightarrow> rust_panic + OrderLevel" where
  "level_depth prof SO st pq =
     bindR (sum_u64 prof (map (\<lambda>idx. case slab_get SO st idx of Some ord \<Rightarrow> o_quantity ord | None \<Rightarrow> 0) (snd pq)))
       (\<lambda>total. Inr \<lparr>l_price = fst pq, l_quantity = total\<rparr>)"

fun collectR :: "('a \<Rightarrow> 'e + 'b) \<Rightarrow> 'a list \<Rightarrow> 'e + 'b list" where
  "collectR f [] = Inr []"
| "collectR f (x # xs) = bindR (f x) (\<lambda>y. bindR (collectR f xs) (\<lambda>ys. Inr (y # ys)))"

definition get_depth ::
  "build_profile \<Rightarrow> (Order, 's) slab_ops \<Rightarrow> nat \<Rightarrow> 's OrderBook \<Rightarrow>
     rust_panic + OrderLevel list \<times> OrderLevel list" where
  "get_depth prof SO limit b =
     bindR (collectR (level_depth prof SO (order_store b)) (take limit (asks b))) (\<lambda>as.
     bindR (collectR (level_depth prof SO (order_store b)) (take limit (rev (bids b)))) (\<lambda>bs.
       Inr (as, bs)))"

end
