(* ===== verification/Order_Book_Spec.thy ===== *)
theory Order_Book_Spec
  imports Order_Book
begin

text \<open>
  What the order book promises. The abstract book is the list of resting orders of each
  side in price-time priority; \<open>spec_match\<close> walks that list, \<open>spec_place\<close>
  matches and then inserts the rest behind every order of the same or a better price.
  The invariant \<open>book_inv\<close> ties the price levels, the slab and the sides together,
  and the refinement lemmas show that the nested loops of the source implement the
  abstract book without a panic, for every slab with the laws of the locale \<open>slab\<close>.
\<close>

section \<open>The abstract book\<close>

record abs_book =
  a_bids :: "Order list"
  a_asks :: "Order list"

fun spec_match ::
  "OrderId \<Rightarrow> UserId \<Rightarrow> Side \<Rightarrow> Price \<Rightarrow> Quantity \<Rightarrow> Order list \<Rightarrow> Quantity \<times> Order list \<times> EngineEvent list" where
  "spec_match oid uid side price qty [] = (qty, [], [])"
| "spec_match oid uid side price qty (mk # rest) =
     (if qty = 0 \<or> \<not> is_matchable side (o_price mk) price then (qty, mk # rest, [])
      else if o_user_id mk = uid then
        (case spec_match oid uid side price qty rest of
           (qty', rest', evs) \<Rightarrow> (qty', rest', OrderCancelled (o_id mk) # evs))
      else if o_quantity mk \<le> qty then
        (case spec_match oid uid side price (qty - o_quantity mk) rest of
           (qty', rest', evs) \<Rightarrow>
             (qty', rest', TradeExecuted (o_id mk) oid (o_price mk) (o_quantity mk) # evs))
      else (0, mk\<lparr>o_quantity := o_quantity mk - qty\<rparr> # rest,
              [TradeExecuted (o_id mk) oid (o_price mk) qty]))"

text \<open>
  Of two resting orders of one side, the one with the better price comes first; among
  equal prices, the older one.
\<close>

definition at_least_as_good :: "Side \<Rightarrow> Price \<Rightarrow> Price \<Rightarrow> bool" where
  "at_least_as_good side p p' = (case side of Bid \<Rightarrow> p \<ge> p' | Ask \<Rightarrow> p \<le> p')"

definition spec_insert :: "Order \<Rightarrow> Order list \<Rightarrow> Order list" where
  "spec_insert ord xs =
     takeWhile (\<lambda>x. at_least_as_good (o_side ord) (o_price x) (o_price ord)) xs @ ord #
     dropWhile (\<lambda>x. at_least_as_good (o_side ord) (o_price x) (o_price ord)) xs"

definition spec_place ::
  "OrderId \<Rightarrow> UserId \<Rightarrow> Side \<Rightarrow> Price \<Rightarrow> Quantity \<Rightarrow> abs_book \<Rightarrow> abs_book \<times> EngineEvent list" where
  "spec_place oid uid side price qty A =
     (case spec_match oid uid side price qty (case side of Bid \<Rightarrow> a_asks A | Ask \<Rightarrow> a_bids A) of
        (qty', rest, evs) \<Rightarrow>
          let A' = (case side of Bid \<Rightarrow> A\<lparr>a_asks := rest\<rparr> | Ask \<Rightarrow> A\<lparr>a_bids := rest\<rparr>);
              ord = \<lparr>o_id = oid, o_user_id = uid, o_price = price, o_quantity = qty',
                     o_side = side, o_timestamp = 0\<rparr>
          in if qty' > 0
             then (case side of Bid \<Rightarrow> A'\<lparr>a_bids := spec_insert ord (a_bids A')\<rparr>
                              | Ask \<Rightarrow> A'\<lparr>a_asks := spec_insert ord (a_asks A')\<rparr>,
                   evs @ [OrderPlaced oid uid price qty' side])
             else (A', evs))"

lemma spec_match_zero [simp]: "spec_match oid uid side price 0 xs = (0, xs, [])"
  by (cases xs) auto

section \<open>Levels, indices and the invariant\<close>

text \<open>The levels in the order in which a taker of the given side visits them.\<close>

definition prio :: "Side \<Rightarrow> levels \<Rightarrow> levels" where
  "prio taker lv = (case taker of Bid \<Rightarrow> lv | Ask \<Rightarrow> rev lv)"

definition level_idxs :: "levels \<Rightarrow> nat list" where
  "level_idxs lv = concat (map snd lv)"

definition orders :: "(nat \<rightharpoonup> Order) \<Rightarrow> levels \<Rightarrow> Order list" where
  "orders g lv = map (\<lambda>i. the (g i)) (level_idxs lv)"

definition queue_ok :: "(nat \<rightharpoonup> Order) \<Rightarrow> Side \<Rightarrow> Price \<Rightarrow> nat list \<Rightarrow> bool" where
  "queue_ok g sd p q \<longleftrightarrow>
     (\<forall>i \<in> set q. \<exists>ord. g i = Some ord \<and> o_price ord = p \<and> o_side ord = sd \<and> 0 < o_quantity ord)"

definition lv_ok :: "(nat \<rightharpoonup> Order) \<Rightarrow> Side \<Rightarrow> levels \<Rightarrow> bool" where
  "lv_ok g sd lv \<longleftrightarrow> bt_ok lv \<and> distinct (level_idxs lv) \<and>
     (\<forall>(p, q) \<in> set lv. q \<noteq> [] \<and> queue_ok g sd p q)"

definition book_inv :: "(Order, 's) slab_ops \<Rightarrow> 's OrderBook \<Rightarrow> bool" where
  "book_inv SO b \<longleftrightarrow>
     lv_ok (slab_get SO (order_store b)) Bid (bids b) \<and>
     lv_ok (slab_get SO (order_store b)) Ask (asks b) \<and>
     set (level_idxs (bids b)) \<inter> set (level_idxs (asks b)) = {} \<and>
     dom (slab_get SO (order_store b)) = set (level_idxs (bids b)) \<union> set (level_idxs (asks b)) \<and>
     (\<forall>p \<in> fst ` set (bids b). \<forall>p' \<in> fst ` set (asks b). p < p')"

definition abs_of :: "(Order, 's) slab_ops \<Rightarrow> 's OrderBook \<Rightarrow> abs_book" where
  "abs_of SO b =
     \<lparr>a_bids = orders (slab_get SO (order_store b)) (prio Ask (bids b)),
      a_asks = orders (slab_get SO (order_store b)) (prio Bid (asks b))\<rparr>"

lemma set_prio [simp]: "set (prio taker lv) = set lv"
  by (cases taker) (auto simp: prio_def)

lemma level_idxs_simps [simp]:
  "level_idxs [] = []" "level_idxs (pq # lv) = snd pq @ level_idxs lv"
  "level_idxs (lv @ lv') = level_idxs lv @ level_idxs lv'"
  by (simp_all add: level_idxs_def)

lemma set_level_idxs: "set (level_idxs lv) = (\<Union>pq \<in> set lv. set (snd pq))"
  by (auto simp: level_idxs_def)

lemma set_level_idxs_prio [simp]: "set (level_idxs (prio taker lv)) = set (level_idxs lv)"
  by (simp add: set_level_idxs)

lemma distinct_level_idxs_rev: "distinct (level_idxs (rev lv)) \<longleftrightarrow> distinct (level_idxs lv)"
  by (induction lv) (auto simp: set_level_idxs)

lemma distinct_level_idxs_prio [simp]:
  "distinct (level_idxs (prio taker lv)) \<longleftrightarrow> distinct (level_idxs lv)"
  by (cases taker) (simp_all add: prio_def distinct_level_idxs_rev)

lemma orders_simps [simp]:
  "orders g [] = []" "orders g (pq # lv) = map (\<lambda>i. the (g i)) (snd pq) @ orders g lv"
  by (simp_all add: orders_def)

lemma orders_cong: "(\<And>i. i \<in> set (level_idxs lv) \<Longrightarrow> g i = g' i) \<Longrightarrow> orders g lv = orders g' lv"
  by (auto simp: orders_def)

lemma queue_ok_Nil [simp]: "queue_ok g sd p []"
  by (simp add: queue_ok_def)

lemma queue_ok_cong: "(\<And>i. i \<in> set q \<Longrightarrow> g i = g' i) \<Longrightarrow> queue_ok g sd p q = queue_ok g' sd p q"
  by (simp add: queue_ok_def)

lemma lv_ok_cong:
  assumes "\<And>i. i \<in> set (level_idxs lv) \<Longrightarrow> g i = g' i"
  shows "lv_ok g sd lv = lv_ok g' sd lv"
proof -
  have "queue_ok g sd p q = queue_ok g' sd p q" if "(p, q) \<in> set lv" for p q
    using that assms by (intro queue_ok_cong) (force simp: set_level_idxs)
  then show ?thesis
    by (auto simp: lv_ok_def)
qed

text \<open>The best level is the first of the priority order, and writing it back touches only it.\<close>

lemma best_level_None: "best_level taker lv = None \<longleftrightarrow> lv = []"
  by (auto simp: best_level_def bt_first_def bt_last_def split: Side.splits list.splits)

lemma best_level_Some:
  "best_level taker lv = Some (p, q) \<longleftrightarrow> (\<exists>L. prio taker lv = (p, q) # L)"
  by (cases taker; cases lv rule: rev_cases)
     (auto simp: best_level_def bt_first_def bt_last_def prio_def split: list.splits)

lemma write_level_mid:
  assumes "bt_ok (m @ (p, q) # n)"
  shows "write_level p q' (m @ (p, q) # n) = m @ (if q' = [] then [] else [(p, q')]) @ n"
  using bt_insert_mid [OF assms] bt_remove_mid [OF assms]
  by (simp add: write_level_def Let_def bt_remove_def)

lemma prio_write_level:
  assumes "bt_ok lv" "prio taker lv = (p, q) # L"
  shows "prio taker (write_level p q' lv) = (if q' = [] then L else (p, q') # L)"
proof (cases taker)
  case Bid
  with assms write_level_mid [of "[]" p q L q'] show ?thesis
    by (simp add: prio_def)
next
  case Ask
  with assms have "lv = rev L @ (p, q) # []"
    by (simp add: prio_def rev_swap)
  with assms(1) Ask write_level_mid [of "rev L" p q "[]" q'] show ?thesis
    by (simp add: prio_def)
qed

lemma set_write_level:
  assumes "bt_ok lv" "prio taker lv = (p, q) # L"
  shows "set (write_level p q' lv) = (if q' = [] then set L else insert (p, q') (set L))"
proof -
  have "set (write_level p q' lv) = set (prio taker (write_level p q' lv))"
    by simp
  also have "\<dots> = (if q' = [] then set L else insert (p, q') (set L))"
    unfolding prio_write_level [OF assms] by simp
  finally show ?thesis .
qed

lemma bt_ok_write_level: "bt_ok lv \<Longrightarrow> bt_ok (write_level p q lv)"
  by (simp add: write_level_def Let_def bt_laws)

lemma lv_okD:
  assumes "lv_ok g sd lv" "prio taker lv = (p, q) # L"
  shows "bt_ok lv" "q \<noteq> []" "queue_ok g sd p q" "distinct q" "distinct (level_idxs L)"
    "set q \<inter> set (level_idxs L) = {}" "(p, q) \<in> set lv"
    "\<forall>(p', q') \<in> set L. q' \<noteq> [] \<and> queue_ok g sd p' q'"
proof -
  have set: "set lv = insert (p, q) (set L)"
    using assms(2) set_prio [of taker lv] by simp
  have dist: "distinct (level_idxs ((p, q) # L))"
    using assms distinct_level_idxs_prio [of taker lv] by (simp add: lv_ok_def)
  from assms(1) set dist show "bt_ok lv" "q \<noteq> []" "queue_ok g sd p q" "distinct q"
    "distinct (level_idxs L)" "set q \<inter> set (level_idxs L) = {}" "(p, q) \<in> set lv"
    "\<forall>(p', q') \<in> set L. q' \<noteq> [] \<and> queue_ok g sd p' q'"
    by (auto simp: lv_ok_def)
qed

section \<open>The inner loop\<close>

text \<open>
  What one run of the inner loop does to the slab contents \<open>g\<close> and the queue
  \<open>q\<close>: it takes orders off the front, clears exactly their slots, and the walk over
  the abstract list continues where it stopped.
\<close>

definition level_post ::
  "OrderId \<Rightarrow> UserId \<Rightarrow> Side \<Rightarrow> Price \<Rightarrow> Side \<Rightarrow> Price \<Rightarrow> Quantity \<Rightarrow> (nat \<rightharpoonup> Order) \<Rightarrow> nat list \<Rightarrow>
     Quantity \<Rightarrow> (nat \<rightharpoonup> Order) \<Rightarrow> nat list \<Rightarrow> EngineEvent list \<Rightarrow> bool" where
  "level_post oid uid side price sd bp qty g q qty' g' q' evs \<longleftrightarrow>
     (\<exists>k. q' = drop k q) \<and> queue_ok g' sd bp q' \<and>
     (\<forall>i. i \<notin> set q \<longrightarrow> g' i = g i) \<and> (\<forall>i \<in> set q - set q'. g' i = None) \<and>
     (\<forall>R. spec_match oid uid side price qty (map (\<lambda>i. the (g i)) q @ R) =
        (case spec_match oid uid side price qty' (map (\<lambda>i. the (g' i)) q' @ R) of
           (a, xs, c) \<Rightarrow> (a, xs, evs @ c)))"

text \<open>
  An order taken off the front, with the event \<open>ev\<close> and the quantity \<open>qty1\<close>
  left, followed by a run over the rest of the queue.
\<close>

lemma level_post_Cons:
  assumes rest: "level_post oid uid side price sd bp qty1 (g(idx := None)) q qty' g' q' evs"
    and notin: "idx \<notin> set q"
    and step: "\<And>xs. spec_match oid uid side price qty (the (g idx) # xs) =
      (case spec_match oid uid side price qty1 xs of (a, ys, c) \<Rightarrow> (a, ys, ev # c))"
  shows "level_post oid uid side price sd bp qty g (idx # q) qty' g' q' (ev # evs)"
proof -
  from rest obtain k where k: "q' = drop k q"
    by (auto simp: level_post_def)
  then have sub: "set q' \<subseteq> set q"
    by (auto dest: in_set_dropD)
  have maps: "map (\<lambda>i. the ((g(idx := None)) i)) q = map (\<lambda>i. the (g i)) q"
    using notin by auto
  have "spec_match oid uid side price qty (map (\<lambda>i. the (g i)) (idx # q) @ R) =
      (case spec_match oid uid side price qty' (map (\<lambda>i. the (g' i)) q' @ R) of
         (a, xs, c) \<Rightarrow> (a, xs, (ev # evs) @ c))" for R
  proof -
    from rest have "spec_match oid uid side price qty1 (map (\<lambda>i. the ((g(idx := None)) i)) q @ R) =
        (case spec_match oid uid side price qty' (map (\<lambda>i. the (g' i)) q' @ R) of
           (a, xs, c) \<Rightarrow> (a, xs, evs @ c))"
      unfolding level_post_def by blast
    with step [of "map (\<lambda>i. the (g i)) q @ R"] show ?thesis
      unfolding maps by (simp split: prod.splits del: spec_match.simps)
  qed
  moreover have "\<exists>k. q' = drop k (idx # q)"
    using k by (metis drop_Suc_Cons)
  moreover have "g' idx = None"
    using rest notin by (simp add: level_post_def)
  ultimately show ?thesis
    using rest sub unfolding level_post_def by auto
qed

text \<open>Writing back the rest of the drained queue keeps the levels well formed.\<close>

lemma lv_ok_write_level:
  assumes ok: "lv_ok g sd lv" and pr: "prio taker lv = (p, q) # L"
    and q': "\<exists>k. q' = drop k q" "queue_ok g' sd p q'" and frame: "\<forall>i. i \<notin> set q \<longrightarrow> g' i = g i"
  shows "lv_ok g' sd (write_level p q' lv)"
proof -
  note D = lv_okD [OF ok pr]
  from q' have sub: "set q' \<subseteq> set q" and "distinct q'"
    using D(4) by (auto dest: in_set_dropD)
  have pr': "prio taker (write_level p q' lv) = (if q' = [] then L else (p, q') # L)"
    using D(1) pr by (rule prio_write_level)
  have queues: "queue_ok g' sd p'' q''" if "(p'', q'') \<in> set L" for p'' q''
  proof -
    have "set q'' \<inter> set q = {}"
      using that D(6) by (force simp: set_level_idxs)
    then have "queue_ok g' sd p'' q'' = queue_ok g sd p'' q''"
      using frame by (intro queue_ok_cong) blast
    with that D(8) show ?thesis by auto
  qed
  have "distinct (level_idxs (write_level p q' lv))"
    using distinct_level_idxs_prio [of taker "write_level p q' lv"] sub \<open>distinct q'\<close> D(5,6)
    by (auto simp: pr' split: if_splits)
  moreover have "q'' \<noteq> [] \<and> queue_ok g' sd p'' q''" if "(p'', q'') \<in> set (write_level p q' lv)" for p'' q''
    using that D(8) q'(2) queues by (auto simp: set_write_level [OF D(1) pr] split: if_splits)
  ultimately show ?thesis
    using bt_ok_write_level [OF D(1)] by (auto simp: lv_ok_def)
qed

definition loop_post ::
  "OrderId \<Rightarrow> UserId \<Rightarrow> Side \<Rightarrow> Price \<Rightarrow> Quantity \<Rightarrow> (nat \<rightharpoonup> Order) \<Rightarrow> levels \<Rightarrow>
     Quantity \<Rightarrow> (nat \<rightharpoonup> Order) \<Rightarrow> levels \<Rightarrow> EngineEvent list \<Rightarrow> bool" where
  "loop_post oid uid side price qty g lv qty' g' lv' evs \<longleftrightarrow>
     lv_ok g' (opposite side) lv' \<and> fst ` set lv' \<subseteq> fst ` set lv \<and>
     set (level_idxs lv') \<subseteq> set (level_idxs lv) \<and>
     (\<forall>i. i \<notin> set (level_idxs lv) \<longrightarrow> g' i = g i) \<and>
     (\<forall>i \<in> set (level_idxs lv) - set (level_idxs lv'). g' i = None) \<and>
     spec_match oid uid side price qty (orders g (prio side lv)) =
       (qty', orders g' (prio side lv'), evs)"

text \<open>A drained level followed by the rest of the outer loop.\<close>

lemma loop_post_level:
  assumes ok: "lv_ok g (opposite side) lv" and pr: "prio side lv = (p, q) # L"
    and lp: "level_post oid uid side price (opposite side) p qty g q qty1 g1 q1 evs1"
    and rest: "loop_post oid uid side price qty1 g1 (write_level p q1 lv) qty' g' lv' evs2"
  shows "loop_post oid uid side price qty g lv qty' g' lv' (evs1 @ evs2)"
proof -
  note D = lv_okD [OF ok pr]
  let ?lv1 = "write_level p q1 lv"
  have pr1: "prio side ?lv1 = (if q1 = [] then L else (p, q1) # L)"
    using D(1) pr by (rule prio_write_level)
  from lp have sub: "set q1 \<subseteq> set q"
    by (auto simp: level_post_def dest: in_set_dropD)
  have idx: "set (level_idxs lv) = set q \<union> set (level_idxs L)"
    using set_level_idxs_prio [of side lv] by (simp add: pr)
  have idx1: "set (level_idxs ?lv1) = set q1 \<union> set (level_idxs L)"
    using set_level_idxs_prio [of side ?lv1] by (auto simp: pr1 split: if_splits)
  have keys: "fst ` set ?lv1 \<subseteq> fst ` set lv"
  proof -
    have "set lv = insert (p, q) (set L)"
      using pr set_prio [of side lv] by simp
    then show ?thesis
      by (auto simp: set_write_level [OF D(1) pr] split: if_splits)
  qed
  have "orders g1 L = orders g L"
    using lp D(6) by (intro orders_cong) (auto simp: level_post_def)
  then have o1: "orders g1 (prio side ?lv1) = map (\<lambda>i. the (g1 i)) q1 @ orders g L"
    by (simp add: pr1)
  have "spec_match oid uid side price qty (map (\<lambda>i. the (g i)) q @ orders g L) =
      (case spec_match oid uid side price qty1 (map (\<lambda>i. the (g1 i)) q1 @ orders g L) of
         (a, xs, c) \<Rightarrow> (a, xs, evs1 @ c))"
    using lp unfolding level_post_def by blast
  then have "spec_match oid uid side price qty (orders g (prio side lv)) =
      (qty', orders g' (prio side lv'), evs1 @ evs2)"
    using rest unfolding loop_post_def o1 by (simp add: pr)
  moreover have "g' i = None" if "i \<in> set (level_idxs lv) - set (level_idxs lv')" for i
  proof (cases "i \<in> set (level_idxs ?lv1)")
    case True
    with that rest show ?thesis by (auto simp: loop_post_def)
  next
    case False
    with rest have "g' i = g1 i"
      by (auto simp: loop_post_def)
    with that False lp show ?thesis
      by (auto simp: level_post_def idx idx1)
  qed
  moreover have "g' i = g i" if "i \<notin> set (level_idxs lv)" for i
    using that sub rest lp by (auto simp: loop_post_def level_post_def idx idx1)
  moreover have "set (level_idxs lv') \<subseteq> set (level_idxs lv)"
    using rest sub by (auto simp: loop_post_def idx idx1)
  moreover have "fst ` set lv' \<subseteq> fst ` set lv"
    using rest keys unfolding loop_post_def by blast
  moreover have "lv_ok g' (opposite side) lv'"
    using rest unfolding loop_post_def by blast
  ultimately show ?thesis
    unfolding loop_post_def by blast
qed

locale order_slab = slab SO for SO :: "(Order, 's) slab_ops"
begin

lemma match_level_self:
  assumes "slab_get SO st idx = Some mk" "o_user_id mk = uid"
  obtains st1 where "slab_get SO st1 = (slab_get SO st)(idx := None)"
    and "match_level SO oid uid bp qty st (idx # q) =
      bindR (match_level SO oid uid bp qty st1 q)
        (\<lambda>(qty', st', q', evs). Inr (qty', st', q', OrderCancelled (o_id mk) # evs))"
proof -
  from assms(1) obtain st1 where "slab_remove SO idx st = Inr (mk, st1)"
    and "slab_get SO st1 = (slab_get SO st)(idx := None)"
    by (rule remove_occupiedE)
  with assms that show thesis
    by (simp add: match_level.simps(2))
qed

lemma remove_after_set:
  assumes "slab_get SO st idx = Some mk"
  obtains x st1 where "slab_remove SO idx (slab_set SO idx v st) = Inr (x, st1)"
    and "slab_get SO st1 = (slab_get SO st)(idx := None)"
proof -
  have set: "slab_get SO (slab_set SO idx v st) = (slab_get SO st)(idx \<mapsto> v)"
    using assms by (rule get_set)
  then have "slab_get SO (slab_set SO idx v st) idx = Some v"
    by simp
  then obtain st1 where "slab_remove SO idx (slab_set SO idx v st) = Inr (v, st1)"
    and "slab_get SO st1 = (slab_get SO (slab_set SO idx v st))(idx := None)"
    by (rule remove_occupiedE)
  with set that show thesis
    by simp
qed

lemma match_level_fill:
  assumes "slab_get SO st idx = Some mk" "o_user_id mk \<noteq> uid" "o_quantity mk < qty"
  obtains st1 where "slab_get SO st1 = (slab_get SO st)(idx := None)"
    and "match_level SO oid uid bp qty st (idx # q) =
      bindR (match_level SO oid uid bp (qty - o_quantity mk) st1 q)
        (\<lambda>(qty', st', q', evs).
           Inr (qty', st', q', TradeExecuted (o_id mk) oid bp (o_quantity mk) # evs))"
proof -
  from assms(1) obtain x st1
    where "slab_remove SO idx (slab_set SO idx (mk\<lparr>o_quantity := 0\<rparr>) st) = Inr (x, st1)"
    and "slab_get SO st1 = (slab_get SO st)(idx := None)"
    by (rule remove_after_set)
  moreover from assms(3) have "min qty (o_quantity mk) = o_quantity mk" "qty - o_quantity mk \<noteq> 0"
    by auto
  ultimately show thesis
    using assms that by (simp add: match_level.simps(2) Let_def)
qed

lemma match_level_stop:
  assumes "slab_get SO st idx = Some mk" "o_user_id mk \<noteq> uid" "o_quantity mk = qty"
  obtains st1 where "slab_get SO st1 = (slab_get SO st)(idx := None)"
    and "match_level SO oid uid bp qty st (idx # q) =
      Inr (0, st1, q, [TradeExecuted (o_id mk) oid bp qty])"
proof -
  from assms(1) obtain x st1
    where "slab_remove SO idx (slab_set SO idx (mk\<lparr>o_quantity := 0\<rparr>) st) = Inr (x, st1)"
    and "slab_get SO st1 = (slab_get SO st)(idx := None)"
    by (rule remove_after_set)
  with assms that show thesis
    by (simp add: match_level.simps(2) Let_def)
qed

lemma match_level_partly:
  assumes "slab_get SO st idx = Some mk" "o_user_id mk \<noteq> uid" "qty < o_quantity mk"
  shows "match_level SO oid uid bp qty st (idx # q) =
    Inr (0, slab_set SO idx (mk\<lparr>o_quantity := o_quantity mk - qty\<rparr>) st, idx # q,
         [TradeExecuted (o_id mk) oid bp qty])"
proof -
  from assms(3) have "min qty (o_quantity mk) = qty" "o_quantity mk - qty \<noteq> 0"
    by auto
  with assms show ?thesis
    by (simp add: match_level.simps(2) Let_def)
qed

lemma match_level_refines:
  assumes "queue_ok (slab_get SO st) sd bp q" "distinct q" "is_matchable side bp price" "qty \<noteq> 0"
  shows "\<exists>qty' st' q' evs. match_level SO oid uid bp qty st q = Inr (qty', st', q', evs) \<and>
    level_post oid uid side price sd bp qty (slab_get SO st) q qty' (slab_get SO st') q' evs"
  using assms
proof (induction q arbitrary: qty st)
  case Nil
  then show ?case
    by (simp add: level_post_def queue_ok_def)
next
  case (Cons idx q)
  from Cons.prems(1) obtain mk where mk: "slab_get SO st idx = Some mk" "o_price mk = bp"
    "o_side mk = sd" "0 < o_quantity mk"
    by (auto simp: queue_ok_def)
  from Cons.prems have q: "idx \<notin> set q" "distinct q" "queue_ok (slab_get SO st) sd bp q"
    by (auto simp: queue_ok_def)
  have rest: "queue_ok ((slab_get SO st)(idx := x)) sd bp q" for x
    using q by (auto simp: queue_ok_def)
  consider (self) "o_user_id mk = uid" | (fill) "o_user_id mk \<noteq> uid" "o_quantity mk < qty"
    | (stop) "o_user_id mk \<noteq> uid" "o_quantity mk = qty"
    | (partly) "o_user_id mk \<noteq> uid" "qty < o_quantity mk"
    by (meson linorder_less_linear)
  then show ?case
  proof cases
    case self
    from mk(1) self obtain st1 where st1: "slab_get SO st1 = (slab_get SO st)(idx := None)"
      and run: "match_level SO oid uid bp qty st (idx # q) = bindR (match_level SO oid uid bp qty st1 q)
        (\<lambda>(qty', st', q', evs). Inr (qty', st', q', OrderCancelled (o_id mk) # evs))"
      by (rule match_level_self)
    have "queue_ok (slab_get SO st1) sd bp q"
      unfolding st1 by (rule rest)
    from Cons.IH [OF this q(2) Cons.prems(3,4)] obtain qty' st' q' evs
      where IH: "match_level SO oid uid bp qty st1 q = Inr (qty', st', q', evs)"
        "level_post oid uid side price sd bp qty (slab_get SO st1) q qty' (slab_get SO st') q' evs"
      by blast
    have "level_post oid uid side price sd bp qty (slab_get SO st) (idx # q) qty' (slab_get SO st') q'
        (OrderCancelled (o_id mk) # evs)"
      using IH(2) q(1) unfolding st1 by (rule level_post_Cons) (use mk self Cons.prems in simp)
    with run IH(1) show ?thesis
      by auto
  next
    case fill
    from mk(1) fill obtain st1 where st1: "slab_get SO st1 = (slab_get SO st)(idx := None)"
      and run: "match_level SO oid uid bp qty st (idx # q) =
        bindR (match_level SO oid uid bp (qty - o_quantity mk) st1 q) (\<lambda>(qty', st', q', evs).
           Inr (qty', st', q', TradeExecuted (o_id mk) oid bp (o_quantity mk) # evs))"
      by (rule match_level_fill)
    have "queue_ok (slab_get SO st1) sd bp q" "qty - o_quantity mk \<noteq> 0"
      unfolding st1 using fill by (auto intro: rest)
    from Cons.IH [OF this(1) q(2) Cons.prems(3) this(2)] obtain qty' st' q' evs
      where IH: "match_level SO oid uid bp (qty - o_quantity mk) st1 q = Inr (qty', st', q', evs)"
        "level_post oid uid side price sd bp (qty - o_quantity mk) (slab_get SO st1) q qty' (slab_get SO st') q' evs"
      by blast
    have "level_post oid uid side price sd bp qty (slab_get SO st) (idx # q) qty' (slab_get SO st') q'
        (TradeExecuted (o_id mk) oid bp (o_quantity mk) # evs)"
      using IH(2) q(1) unfolding st1
      by (rule level_post_Cons) (use mk fill less_imp_le [OF fill(2)] Cons.prems in simp)
    with run IH(1) show ?thesis
      by auto
  next
    case stop
    from mk(1) stop obtain st1 where st1: "slab_get SO st1 = (slab_get SO st)(idx := None)"
      and run: "match_level SO oid uid bp qty st (idx # q) =
        Inr (0, st1, q, [TradeExecuted (o_id mk) oid bp qty])"
      by (rule match_level_stop)
    have "level_post oid uid side price sd bp 0 ((slab_get SO st)(idx := None)) q 0 (slab_get SO st1) q []"
      using rest by (auto simp: level_post_def st1 intro: exI [of _ 0])
    then have "level_post oid uid side price sd bp qty (slab_get SO st) (idx # q) 0 (slab_get SO st1) q
        [TradeExecuted (o_id mk) oid bp qty]"
      using q(1) by (rule level_post_Cons) (use mk stop Cons.prems in auto)
    with run show ?thesis
      by auto
  next
    case partly
    let ?g = "(slab_get SO st)(idx \<mapsto> mk\<lparr>o_quantity := o_quantity mk - qty\<rparr>)"
    have "0 < o_quantity mk - qty"
      using partly by (simp add: word_gt_0)
    then have "level_post oid uid side price sd bp qty (slab_get SO st) (idx # q) 0 ?g (idx # q)
        [TradeExecuted (o_id mk) oid bp qty]"
      using mk partly q rest Cons.prems
      by (auto simp: level_post_def queue_ok_def intro: exI [of _ 0])
    with match_level_partly [OF mk(1) partly] get_set [OF mk(1)] show ?thesis
      by auto
  qed
qed

lemma match_loop_refines:
  assumes "lv_ok (slab_get SO st) (opposite side) lv"
  shows "\<exists>qty' st' lv' evs. match_loop SO oid uid side price qty st lv = Inr (qty', st', lv', evs) \<and>
    loop_post oid uid side price qty (slab_get SO st) lv qty' (slab_get SO st') lv' evs"
  using assms
proof (induction "prio side lv" arbitrary: qty st lv)
  case Nil
  then have "lv = []"
    by (metis set_prio set_empty)
  then have "best_level side lv = None"
    by (simp add: best_level_None)
  then have "match_loop SO oid uid side price qty st lv = Inr (qty, st, lv, [])"
    by (simp add: match_loop.simps [of SO oid uid side price qty st lv])
  moreover have "prio side [] = []"
    by (cases side) (simp_all add: prio_def)
  ultimately show ?case
    using Nil \<open>lv = []\<close> by (simp add: loop_post_def)
next
  case (Cons pq L)
  obtain p q where pq: "pq = (p, q)"
    by fastforce
  with Cons.hyps(2) have pr: "prio side lv = (p, q) # L"
    by simp
  then have best: "best_level side lv = Some (p, q)"
    by (auto simp: best_level_Some)
  note D = lv_okD [OF Cons.prems pr]
  show ?case
  proof (cases "qty = 0 \<or> \<not> is_matchable side p price")
    case True
    obtain i q'' where "q = i # q''"
      using D(2) by (cases q) auto
    with D(3) obtain mk where "slab_get SO st i = Some mk" "o_price mk = p"
      by (auto simp: queue_ok_def)
    with True pr \<open>q = i # q''\<close> have "spec_match oid uid side price qty
        (orders (slab_get SO st) (prio side lv)) = (qty, orders (slab_get SO st) (prio side lv), [])"
      by auto
    moreover have "match_loop SO oid uid side price qty st lv = Inr (qty, st, lv, [])"
      using True best by (auto simp: match_loop.simps [of SO oid uid side price qty st lv])
    ultimately show ?thesis
      using Cons.prems by (simp add: loop_post_def)
  next
    case False
    with match_level_refines [OF D(3,4), of side price qty oid uid] obtain qty1 st1 q1 evs1
      where run: "match_level SO oid uid p qty st q = Inr (qty1, st1, q1, evs1)"
        and lp: "level_post oid uid side price (opposite side) p qty (slab_get SO st) q qty1 (slab_get SO st1) q1 evs1"
      by blast
    let ?lv1 = "write_level p q1 lv"
    have ok1: "lv_ok (slab_get SO st1) (opposite side) ?lv1"
      by (rule lv_ok_write_level [OF Cons.prems pr]) (use lp in \<open>simp_all add: level_post_def\<close>)
    have unfold: "match_loop SO oid uid side price qty st lv =
        bindR (match_loop SO oid uid side price qty1 st1 ?lv1)
          (\<lambda>(qty'', st'', lv'', evs'). Inr (qty'', st'', lv'', evs1 @ evs'))"
      using False best run by (simp add: match_loop.simps [of SO oid uid side price qty st lv])
    have "\<exists>qty' st' lv' evs. match_loop SO oid uid side price qty1 st1 ?lv1 = Inr (qty', st', lv', evs) \<and>
        loop_post oid uid side price qty1 (slab_get SO st1) ?lv1 qty' (slab_get SO st') lv' evs"
      (is "\<exists>qty' st' lv' evs. ?rest qty' st' lv' evs")
    proof (cases "q1 = []")
      case True
      then have "L = prio side ?lv1"
        using prio_write_level [OF D(1) pr, of q1] by simp
      from Cons.hyps(1) [OF this ok1] show ?thesis .
    next
      case False
      with match_level_progress [OF run] have "qty1 = 0"
        by simp
      with ok1 show ?thesis
        by (simp add: match_loop.simps [of SO oid uid side price 0 st1 ?lv1] loop_post_def)
    qed
    then obtain qty' st' lv' evs where rest: "?rest qty' st' lv' evs"
      by blast
    then have "loop_post oid uid side price qty (slab_get SO st) lv qty' (slab_get SO st') lv' (evs1 @ evs)"
      using loop_post_level [OF Cons.prems pr lp] by blast
    with unfold rest show ?thesis
      by simp
  qed
qed

end

section \<open>The maker phase\<close>

lemma bt_insert_split:
  "bt_ok lv \<Longrightarrow> \<exists>m n. (lv = m @ n \<or> (\<exists>v. lv = m @ (k, v) # n)) \<and> bt_insert k w lv = m @ (k, w) # n \<and>
     (\<forall>x \<in> fst ` set m. x < k) \<and> (\<forall>x \<in> fst ` set n. k < x)"
proof (induction k w lv rule: bt_insert.induct)
  case (1 k w)
  then show ?case by auto
next
  case (2 k w a b m)
  consider "k < a" | "k = a" | "a < k"
    by (meson linorder_less_linear)
  then show ?case
  proof cases
    case 1
    with 2 have "((a, b) # m = [] @ (a, b) # m) \<and> (\<forall>x \<in> fst ` set ((a, b) # m). k < x)"
      by (auto simp: bt_ok_Cons)
    with 1 show ?thesis
      by (intro exI [of _ "[]"] exI [of _ "(a, b) # m"]) auto
  next
    case 2
    with "2.prems" show ?thesis
      by (intro exI [of _ "[]"] exI [of _ m]) (auto simp: bt_ok_Cons)
  next
    case 3
    then have "\<not> k < a" "k \<noteq> a"
      by auto
    with "2.IH" "2.prems" obtain m' n where "(m = m' @ n \<or> (\<exists>v. m = m' @ (k, v) # n))"
      "bt_insert k w m = m' @ (k, w) # n" "\<forall>x \<in> fst ` set m'. x < k" "\<forall>x \<in> fst ` set n. k < x"
      by (auto simp: bt_ok_Cons)
    with 3 show ?thesis
      by (intro exI [of _ "(a, b) # m'"] exI [of _ n]) auto
  qed
qed

lemma push_level_split:
  assumes "bt_ok lv"
  obtains m n q where "lv = m @ (if q = [] then [] else [(p, q)]) @ n \<or> lv = m @ [(p, q)] @ n"
    and "push_level p idx lv = m @ (p, q @ [idx]) # n"
    and "\<forall>x \<in> fst ` set m. x < p" and "\<forall>x \<in> fst ` set n. p < x"
proof -
  let ?q = "case bt_get lv p of None \<Rightarrow> [] | Some q \<Rightarrow> q"
  from bt_insert_split [OF assms, of p "?q @ [idx]"] obtain m n
    where mn: "lv = m @ n \<or> (\<exists>v. lv = m @ (p, v) # n)" "push_level p idx lv = m @ (p, ?q @ [idx]) # n"
      "\<forall>x \<in> fst ` set m. x < p" "\<forall>x \<in> fst ` set n. p < x"
    by (auto simp: push_level_def)
  from mn(1) show thesis
  proof
    assume lv: "lv = m @ n"
    with mn(3,4) have "p \<notin> fst ` set lv"
      by auto
    then have "bt_get lv p = None"
      by (simp add: bt_get_def map_of_eq_None_iff)
    with that [of m "[]" n] lv mn show thesis by simp
  next
    assume "\<exists>v. lv = m @ (p, v) # n"
    then obtain v where lv: "lv = m @ (p, v) # n" by blast
    with assms have "bt_get lv p = Some v"
      by (simp add: bt_get_Some_iff)
    with that [of m v n] lv mn show thesis by simp
  qed
qed

lemma spec_insert_split:
  assumes "\<forall>x \<in> set xs. at_least_as_good (o_side ord) (o_price x) (o_price ord)"
    and "\<forall>y \<in> set ys. \<not> at_least_as_good (o_side ord) (o_price y) (o_price ord)"
  shows "spec_insert ord (xs @ ys) = xs @ ord # ys"
proof -
  have "takeWhile P ys = []" "dropWhile P ys = ys" if "\<forall>y \<in> set ys. \<not> P y" for P :: "Order \<Rightarrow> bool"
    using that by (cases ys; simp)+
  with assms show ?thesis
    by (simp add: spec_insert_def)
qed

lemma prio_append [simp]:
  "prio Bid (m @ n) = prio Bid m @ prio Bid n" "prio Ask (m @ n) = prio Ask n @ prio Ask m"
  by (simp_all add: prio_def)

lemma prio_Cons:
  "prio Bid (pq # n) = pq # prio Bid n" "prio Ask (pq # n) = prio Ask n @ [pq]"
  by (simp_all add: prio_def)

lemma prio_simps [simp]: "prio t [] = []" "prio t [pq] = [pq]"
  by (cases t; simp add: prio_def)+

lemma orders_append [simp]: "orders g (m @ n) = orders g m @ orders g n"
  by (simp add: orders_def)

lemma order_price:
  assumes "\<forall>(p, q) \<in> set lv. queue_ok g sd p q" "x \<in> set (orders g lv)"
  shows "o_price x \<in> fst ` set lv"
proof -
  from assms(2) obtain p q i where pq: "(p, q) \<in> set lv" "i \<in> set q" "x = the (g i)"
    by (auto simp: orders_def set_level_idxs)
  with assms(1) have "queue_ok g sd p q"
    by auto
  with pq have "o_price x = p"
    by (auto simp: queue_ok_def)
  with pq(1) show ?thesis
    by force
qed

text \<open>Resting a new order behind its level keeps the levels well formed and is the abstract insertion.\<close>

lemma push_level_refines:
  assumes ok: "lv_ok g sd lv" and fresh: "idx \<notin> set (level_idxs lv)"
    and ord: "o_price ord = p" "o_side ord = sd" "0 < o_quantity ord"
  shows "lv_ok (g(idx \<mapsto> ord)) sd (push_level p idx lv)"
    and "set (level_idxs (push_level p idx lv)) = insert idx (set (level_idxs lv))"
    and "fst ` set (push_level p idx lv) = insert p (fst ` set lv)"
    and "orders (g(idx \<mapsto> ord)) (prio (opposite sd) (push_level p idx lv)) =
      spec_insert ord (orders g (prio (opposite sd) lv))"
proof -
  let ?g = "g(idx \<mapsto> ord)"
  from ok have bt: "bt_ok lv" and dist: "distinct (level_idxs lv)"
    and qs: "\<forall>(p, q) \<in> set lv. q \<noteq> [] \<and> queue_ok g sd p q"
    by (auto simp: lv_ok_def)
  from push_level_split [OF bt, of p idx] obtain m n q
    where lv: "lv = m @ (if q = [] then [] else [(p, q)]) @ n \<or> lv = m @ [(p, q)] @ n"
      and push: "push_level p idx lv = m @ (p, q @ [idx]) # n"
      and m: "\<forall>x \<in> fst ` set m. x < p" and n: "\<forall>x \<in> fst ` set n. p < x" .
  then have lv: "lv = m @ (if q = [] then [] else [(p, q)]) @ n"
    using qs by fastforce
  show idxs: "set (level_idxs (push_level p idx lv)) = insert idx (set (level_idxs lv))"
    unfolding push by (auto simp: lv)
  show "fst ` set (push_level p idx lv) = insert p (fst ` set lv)"
    unfolding push by (auto simp: lv)
  have qmn: "\<forall>(p, q) \<in> set m. queue_ok g sd p q" "\<forall>(p, q) \<in> set n. queue_ok g sd p q" "queue_ok g sd p q"
    using qs by (auto simp: lv split: if_splits)
  have keep: "queue_ok ?g sd p' q'" if "(p', q') \<in> set m \<union> set n" for p' q'
  proof -
    have "idx \<notin> set q'" "queue_ok g sd p' q'"
      using that fresh qmn by (force simp: lv set_level_idxs)+
    then show ?thesis by (auto simp: queue_ok_def)
  qed
  have new: "queue_ok ?g sd p (q @ [idx])"
    using qmn(3) ord by (auto simp: queue_ok_def)
  have "distinct (level_idxs (push_level p idx lv))"
    using dist fresh unfolding push by (auto simp: lv split: if_splits)
  moreover have "bt_ok (push_level p idx lv)"
    by (simp add: push_level_def bt bt_laws)
  ultimately show "lv_ok ?g sd (push_level p idx lv)"
    using qs keep new unfolding push by (auto simp: lv_ok_def lv)
  have same: "orders ?g (prio t m) = orders g (prio t m)" "orders ?g (prio t n) = orders g (prio t n)" for t
    using fresh by (auto simp: lv intro!: orders_cong)
  have sameq: "map (\<lambda>i. the (?g i)) q = map (\<lambda>i. the (g i)) q"
    using fresh by (auto simp: lv split: if_splits)
  have price: "o_price (the (g i)) = p" if "i \<in> set q" for i
    using that qmn(3) by (auto simp: queue_ok_def)
  have low: "o_price x < p" if "x \<in> set (orders g (prio t m))" for x t
    using order_price [of "prio t m" g sd x] that qmn(1) m by auto
  have high: "p < o_price x" if "x \<in> set (orders g (prio t n))" for x t
    using order_price [of "prio t n" g sd x] that qmn(2) n by auto
  have old: "orders g (prio Bid lv) = (orders g (prio Bid m) @ map (\<lambda>i. the (g i)) q) @ orders g (prio Bid n)"
    "orders g (prio Ask lv) = (orders g (prio Ask n) @ map (\<lambda>i. the (g i)) q) @ orders g (prio Ask m)"
    by (auto simp: lv)
  show "orders ?g (prio (opposite sd) (push_level p idx lv)) =
      spec_insert ord (orders g (prio (opposite sd) lv))"
  proof (cases sd)
    case Bid
    have "spec_insert ord (orders g (prio Ask lv)) =
        (orders g (prio Ask n) @ map (\<lambda>i. the (g i)) q) @ ord # orders g (prio Ask m)"
      unfolding old
      by (rule spec_insert_split) (use Bid ord in \<open>auto simp: at_least_as_good_def not_le price dest: low high intro: less_imp_le\<close>)
    with Bid sameq show ?thesis
      by (simp add: push prio_Cons same)
  next
    case Ask
    have "spec_insert ord (orders g (prio Bid lv)) =
        (orders g (prio Bid m) @ map (\<lambda>i. the (g i)) q) @ ord # orders g (prio Bid n)"
      unfolding old
      by (rule spec_insert_split) (use Ask ord in \<open>auto simp: at_least_as_good_def not_le price dest: low high intro: less_imp_le\<close>)
    with Ask sameq show ?thesis
      by (simp add: push prio_Cons same)
  qed
qed

end
