(* ===== verification/Order_Book_Props.thy ===== *)
theory Order_Book_Props
  imports Order_Book_Spec
begin

text \<open>
  Correctness of the operations of the order book: the invariant is kept and no operation
  panics, placing an order refines the abstract book, and cancelling removes at most one
  order, of the caller.
\<close>

section \<open>Placing an order\<close>

lemma spec_match_stop:
  "spec_match oid uid side price qty xs = (qty', rest, evs) \<Longrightarrow>
     qty' = 0 \<or> rest = [] \<or> \<not> is_matchable side (o_price (hd rest)) price"
  by (induction oid uid side price qty xs arbitrary: qty' rest evs rule: spec_match.induct)
     (auto split: if_splits prod.splits)

lemma first_level_best:
  assumes "bt_ok lv" "prio side lv = (p0, q0) # L" "p \<in> fst ` set lv" "is_matchable side p price"
  shows "is_matchable side p0 price"
proof (cases side)
  case Bid
  with assms have "p0 \<le> p"
    by (auto simp: prio_def bt_ok_Cons less_imp_le)
  with assms(4) Bid show ?thesis
    by (simp add: is_matchable_def)
next
  case Ask
  with assms(2) have "lv = rev L @ [(p0, q0)]"
    by (simp add: prio_def rev_swap)
  with assms(1,3) have "p \<le> p0"
    by (auto simp: bt_ok_append less_imp_le)
  with assms(4) Ask show ?thesis
    by (simp add: is_matchable_def)
qed

lemma unmatchable_levels:
  assumes ok: "lv_ok g sd lv"
    and stop: "orders g (prio side lv) = [] \<or> \<not> is_matchable side (o_price (hd (orders g (prio side lv)))) price"
  shows "\<forall>p \<in> fst ` set lv. \<not> is_matchable side p price"
proof (cases "prio side lv")
  case Nil
  then have "set lv = {}"
    using set_prio [of side lv] by simp
  then show ?thesis by simp
next
  case (Cons pq L)
  then obtain p0 q0 where pr: "prio side lv = (p0, q0) # L"
    by (cases pq) simp
  note D = lv_okD [OF ok pr]
  then obtain i q where q0: "q0 = i # q"
    by (cases q0) auto
  with D(3) have "o_price (the (g i)) = p0"
    by (auto simp: queue_ok_def)
  with stop have "\<not> is_matchable side p0 price"
    by (simp add: pr q0)
  with first_level_best [OF D(1) pr] show ?thesis
    by blast
qed

definition a_opposite :: "Side \<Rightarrow> abs_book \<Rightarrow> Order list" where
  "a_opposite side A = (case side of Bid \<Rightarrow> a_asks A | Ask \<Rightarrow> a_bids A)"

definition set_a_opposite :: "Side \<Rightarrow> Order list \<Rightarrow> abs_book \<Rightarrow> abs_book" where
  "set_a_opposite side xs A = (case side of Bid \<Rightarrow> A\<lparr>a_asks := xs\<rparr> | Ask \<Rightarrow> A\<lparr>a_bids := xs\<rparr>)"

lemma a_opposite_abs:
  "a_opposite side (abs_of SO b) = orders (slab_get SO (order_store b)) (prio side (opposite_levels side b))"
  by (cases side) (simp_all add: a_opposite_def abs_of_def opposite_levels_def)

lemma opposite_levels_simps [simp]: "opposite_levels Bid b = asks b" "opposite_levels Ask b = bids b"
  by (simp_all add: opposite_levels_def)

lemma opposite_levels_set [simp]:
  "opposite_levels side (set_opposite_levels side lv b) = lv"
  "order_store (set_opposite_levels side lv b) = order_store b"
  by (cases side; simp add: opposite_levels_def set_opposite_levels_def)+

lemma book_invD:
  assumes "book_inv SO b"
  shows "lv_ok (slab_get SO (order_store b)) (opposite side) (opposite_levels side b)"
  using assms by (cases side) (simp_all add: book_inv_def opposite_levels_def)

text \<open>A book that only lost orders is still uncrossed and its sides are still disjoint.\<close>

lemma book_inv_shrink:
  assumes "book_inv SO b"
    and "lv_ok (slab_get SO (order_store b')) Bid (bids b')"
    and "lv_ok (slab_get SO (order_store b')) Ask (asks b')"
    and "set (level_idxs (bids b')) \<subseteq> set (level_idxs (bids b))"
    and "set (level_idxs (asks b')) \<subseteq> set (level_idxs (asks b))"
    and "fst ` set (bids b') \<subseteq> fst ` set (bids b)" and "fst ` set (asks b') \<subseteq> fst ` set (asks b)"
    and "dom (slab_get SO (order_store b')) = set (level_idxs (bids b')) \<union> set (level_idxs (asks b'))"
  shows "book_inv SO b'"
proof -
  have "set (level_idxs (bids b')) \<inter> set (level_idxs (asks b')) = {}"
    using assms(1,4,5) unfolding book_inv_def by blast
  moreover have cross: "\<forall>p \<in> fst ` set (bids b). \<forall>p' \<in> fst ` set (asks b). p < p'"
    using assms(1) unfolding book_inv_def by (elim conjE)
  have "\<forall>p \<in> fst ` set (bids b'). \<forall>p' \<in> fst ` set (asks b'). p < p'"
  proof (intro ballI)
    fix p p'
    assume "p \<in> fst ` set (bids b')" "p' \<in> fst ` set (asks b')"
    from subsetD [OF assms(6) this(1)] subsetD [OF assms(7) this(2)] show "p < p'"
      by (rule bspec [OF bspec [OF cross]])
  qed
  ultimately show ?thesis
    using assms(2,3,8) unfolding book_inv_def by (intro conjI)
qed

text \<open>What the taker phase leaves behind is again a book, with only the opposite side changed.\<close>

lemma taker_book:
  assumes inv: "book_inv SO b"
    and post: "loop_post oid uid side price qty (slab_get SO (order_store b)) (opposite_levels side b)
      qty' (slab_get SO st) lv evs"
  defines "b' \<equiv> set_opposite_levels side lv (b\<lparr>order_store := st\<rparr>)"
  shows "book_inv SO b'"
    and "abs_of SO b' = set_a_opposite side (orders (slab_get SO st) (prio side lv)) (abs_of SO b)"
proof -
  let ?g = "slab_get SO (order_store b)" and ?g' = "slab_get SO st"
  note P = post [unfolded loop_post_def]
  have frame: "\<And>i. i \<notin> set (level_idxs (opposite_levels side b)) \<Longrightarrow> ?g' i = ?g i"
    and gone: "\<And>i. i \<in> set (level_idxs (opposite_levels side b)) - set (level_idxs lv) \<Longrightarrow> ?g' i = None"
    and ok: "lv_ok ?g' (opposite side) lv"
    and sub: "set (level_idxs lv) \<subseteq> set (level_idxs (opposite_levels side b))"
      "fst ` set lv \<subseteq> fst ` set (opposite_levels side b)"
    using P by blast+
  have live: "i \<in> dom ?g'" if "i \<in> set (level_idxs lv)" for i
  proof -
    from that obtain p q where "(p, q) \<in> set lv" "i \<in> set q"
      by (auto simp: set_level_idxs)
    with ok show ?thesis
      by (fastforce simp: lv_ok_def queue_ok_def)
  qed
  have "dom ?g' = (dom ?g - set (level_idxs (opposite_levels side b))) \<union> set (level_idxs lv)"
  proof (rule set_eqI)
    fix i
    show "i \<in> dom ?g' \<longleftrightarrow> i \<in> (dom ?g - set (level_idxs (opposite_levels side b))) \<union> set (level_idxs lv)"
      using frame [of i] gone [of i] live [of i] sub(1)
      by (cases "i \<in> set (level_idxs (opposite_levels side b))"; cases "i \<in> set (level_idxs lv)")
         (auto simp: domIff)
  qed
  note dom = this
  show "book_inv SO b'"
  proof (cases side)
    case Bid
    have "lv_ok ?g' Bid (bids b) = lv_ok ?g Bid (bids b)"
      using inv frame Bid by (intro lv_ok_cong) (auto simp: book_inv_def)
    moreover have "dom ?g' = set (level_idxs (bids b')) \<union> set (level_idxs (asks b'))"
      using inv dom Bid by (auto simp: book_inv_def b'_def set_opposite_levels_def)
    ultimately show ?thesis
      using inv ok sub Bid
      by (intro book_inv_shrink [OF inv]) (simp_all add: book_inv_def b'_def set_opposite_levels_def)
  next
    case Ask
    have "lv_ok ?g' Ask (asks b) = lv_ok ?g Ask (asks b)"
      using inv frame Ask by (intro lv_ok_cong) (auto simp: book_inv_def)
    moreover have "dom ?g' = set (level_idxs (bids b')) \<union> set (level_idxs (asks b'))"
      using inv dom Ask by (auto simp: book_inv_def b'_def set_opposite_levels_def)
    ultimately show ?thesis
      using inv ok sub Ask
      by (intro book_inv_shrink [OF inv]) (simp_all add: book_inv_def b'_def set_opposite_levels_def)
  qed
  show "abs_of SO b' = set_a_opposite side (orders (slab_get SO st) (prio side lv)) (abs_of SO b)"
  proof (cases side)
    case Bid
    have "orders ?g' (prio Ask (bids b)) = orders ?g (prio Ask (bids b))"
      using inv frame Bid by (intro orders_cong) (auto simp: book_inv_def opposite_levels_def)
    with Bid show ?thesis
      by (simp add: abs_of_def b'_def set_opposite_levels_def set_a_opposite_def)
  next
    case Ask
    have "orders ?g' (prio Bid (asks b)) = orders ?g (prio Bid (asks b))"
      using inv frame Ask by (intro orders_cong) (auto simp: book_inv_def opposite_levels_def)
    with Ask show ?thesis
      by (simp add: abs_of_def b'_def set_opposite_levels_def set_a_opposite_def)
  qed
qed

text \<open>The maker phase rests the remaining quantity on a book it does not cross.\<close>

context order_slab
begin

lemma maker_book:
  fixes oid :: OrderId and uid :: UserId
  assumes inv: "book_inv SO b" and qty: "0 < qty"
    and free: "\<forall>p \<in> fst ` set (opposite_levels side b). \<not> is_matchable side p price"
  defines "ord \<equiv> \<lparr>o_id = oid, o_user_id = uid, o_price = price, o_quantity = qty, o_side = side,
      o_timestamp = 0\<rparr>"
  shows "book_inv SO (place_maker SO oid uid side price qty b)"
    and "abs_of SO (place_maker SO oid uid side price qty b) =
      (case side of Bid \<Rightarrow> (abs_of SO b)\<lparr>a_bids := spec_insert ord (a_bids (abs_of SO b))\<rparr>
                  | Ask \<Rightarrow> (abs_of SO b)\<lparr>a_asks := spec_insert ord (a_asks (abs_of SO b))\<rparr>)"
proof -
  let ?g = "slab_get SO (order_store b)"
  obtain idx st where ins: "slab_insert SO ord (order_store b) = (idx, st)"
    and vac: "?g idx = None" and g': "slab_get SO st = ?g(idx \<mapsto> ord)"
    by (rule insertE)
  from vac have "idx \<notin> dom ?g"
    by (simp add: domIff)
  with inv have fresh: "idx \<notin> set (level_idxs (bids b))" "idx \<notin> set (level_idxs (asks b))"
    by (simp_all add: book_inv_def)
  have okB: "lv_ok ?g Bid (bids b)" and okA: "lv_ok ?g Ask (asks b)"
    using inv by (auto simp: book_inv_def)
  have ord: "o_price ord = price" "o_side ord = side" "0 < o_quantity ord"
    using qty by (simp_all add: ord_def)
  have keep: "lv_ok (?g(idx \<mapsto> ord)) sd lv = lv_ok ?g sd lv"
    "orders (?g(idx \<mapsto> ord)) (prio t lv) = orders ?g (prio t lv)"
    if "idx \<notin> set (level_idxs lv)" for sd lv t
    using that by (auto intro!: lv_ok_cong orders_cong)
  have "book_inv SO (place_maker SO oid uid side price qty b) \<and>
    abs_of SO (place_maker SO oid uid side price qty b) =
      (case side of Bid \<Rightarrow> (abs_of SO b)\<lparr>a_bids := spec_insert ord (a_bids (abs_of SO b))\<rparr>
                  | Ask \<Rightarrow> (abs_of SO b)\<lparr>a_asks := spec_insert ord (a_asks (abs_of SO b))\<rparr>)"
  proof (cases side)
    case Bid
    note push = push_level_refines [OF okB fresh(1), of ord price, unfolded opposite.simps]
    from Bid ord ins have pm: "place_maker SO oid uid side price qty b =
        b\<lparr>order_store := st, order_index := (order_index b)(oid \<mapsto> idx),
          bids := push_level price idx (bids b)\<rparr>"
      by (simp add: place_maker_def ord_def)
    from free Bid have "\<forall>p' \<in> fst ` set (asks b). price < p'"
      by (simp add: opposite_levels_def is_matchable_def not_le)
    with inv push ord Bid fresh keep(1) [OF fresh(2)] show ?thesis
      unfolding pm by (auto simp: book_inv_def abs_of_def g' keep(2) [OF fresh(2)])
  next
    case Ask
    note push = push_level_refines [OF okA fresh(2), of ord price, unfolded opposite.simps]
    from Ask ord ins have pm: "place_maker SO oid uid side price qty b =
        b\<lparr>order_store := st, order_index := (order_index b)(oid \<mapsto> idx),
          asks := push_level price idx (asks b)\<rparr>"
      by (simp add: place_maker_def ord_def)
    from free Ask have "\<forall>p \<in> fst ` set (bids b). p < price"
      by (simp add: opposite_levels_def is_matchable_def not_le)
    with inv push ord Ask fresh keep(1) [OF fresh(1)] show ?thesis
      unfolding pm by (auto simp: book_inv_def abs_of_def g' keep(2) [OF fresh(1)])
  qed
  then show "book_inv SO (place_maker SO oid uid side price qty b)"
    and "abs_of SO (place_maker SO oid uid side price qty b) =
      (case side of Bid \<Rightarrow> (abs_of SO b)\<lparr>a_bids := spec_insert ord (a_bids (abs_of SO b))\<rparr>
                  | Ask \<Rightarrow> (abs_of SO b)\<lparr>a_asks := spec_insert ord (a_asks (abs_of SO b))\<rparr>)"
    by blast+
qed

text \<open>
  Placing an order never panics, keeps the invariant, and computes the book and the events
  of the abstract specification.
\<close>

lemma place_refines:
  assumes inv: "book_inv SO b"
  shows "\<exists>b' evs. place_limit_order SO oid uid side price qty b = Inr (b', evs) \<and> book_inv SO b' \<and>
    spec_place oid uid side price qty (abs_of SO b) = (abs_of SO b', evs)"
proof -
  from match_loop_refines [OF book_invD [OF inv]] obtain qty' st lv evs
    where run: "match_loop SO oid uid side price qty (order_store b) (opposite_levels side b) = Inr (qty', st, lv, evs)"
      and post: "loop_post oid uid side price qty (slab_get SO (order_store b)) (opposite_levels side b)
        qty' (slab_get SO st) lv evs"
    by blast
  let ?b = "set_opposite_levels side lv (b\<lparr>order_store := st\<rparr>)"
  note T = taker_book [OF inv post]
  from post have sm: "spec_match oid uid side price qty (a_opposite side (abs_of SO b)) =
      (qty', orders (slab_get SO st) (prio side lv), evs)"
    by (simp add: loop_post_def a_opposite_abs)
  show ?thesis
  proof (cases "qty' > 0")
    case False
    then have "place_limit_order SO oid uid side price qty b = Inr (?b, evs)"
      using run by (simp add: place_limit_order_def)
    moreover have "spec_place oid uid side price qty (abs_of SO b) = (abs_of SO ?b, evs)"
      unfolding T(2) using sm False
      by (cases side) (simp_all add: spec_place_def a_opposite_def set_a_opposite_def)
    ultimately show ?thesis
      using T(1) by blast
  next
    case True
    have ok: "lv_ok (slab_get SO st) (opposite side) lv"
      using post by (simp add: loop_post_def)
    have "qty' \<noteq> 0"
      using True by auto
    with spec_match_stop [OF sm] have free: "\<forall>p \<in> fst ` set (opposite_levels side ?b). \<not> is_matchable side p price"
      using unmatchable_levels [OF ok, of side price] by simp
    note M = maker_book [OF T(1) True free, of oid uid]
    have "place_limit_order SO oid uid side price qty b =
        Inr (place_maker SO oid uid side price qty' ?b, evs @ [OrderPlaced oid uid price qty' side])"
      using run True by (simp add: place_limit_order_def)
    moreover have "spec_place oid uid side price qty (abs_of SO b) =
        (abs_of SO (place_maker SO oid uid side price qty' ?b), evs @ [OrderPlaced oid uid price qty' side])"
      unfolding M(2) T(2) using sm True
      by (cases side) (simp_all add: spec_place_def a_opposite_def set_a_opposite_def)
    ultimately show ?thesis
      using M(1) by blast
  qed
qed

end

end
