(* ===== verification/Order_Cancel.thy ===== *)
theory Order_Cancel
  imports Order_Book_Props
begin

text \<open>
  Cancellation (\<^verbatim>\<open>OrderBook::cancel_order\<close> of \<^verbatim>\<open>zkapp/engine/src/lib.rs\<close>): the call never
  panics, keeps the invariant of the book, and removes exactly the order that the index
  names when the caller owns it; otherwise it leaves the book as it is.  The index is
  complete for books on which ids were not reused while live, so the owner of a
  resting order can always cancel it.
\<close>

section \<open>Cancelling an order\<close>

text \<open>
  The order a cancellation finds: the slab entry the index names, if the caller owns it.
\<close>

definition cancel_target :: "(Order, 's) slab_ops \<Rightarrow> OrderId \<Rightarrow> UserId \<Rightarrow> 's OrderBook \<Rightarrow> (nat \<times> Order) option" where
  "cancel_target SO oid uid b =
     (case order_index b oid of
        None \<Rightarrow> None
      | Some idx \<Rightarrow> (case slab_get SO (order_store b) idx of
          None \<Rightarrow> None
        | Some ord \<Rightarrow> if o_user_id ord = uid then Some (idx, ord) else None))"

definition a_side :: "Side \<Rightarrow> abs_book \<Rightarrow> Order list" where
  "a_side sd A = (case sd of Bid \<Rightarrow> a_bids A | Ask \<Rightarrow> a_asks A)"

lemma level_idxs_write_mid:
  assumes "bt_ok (m @ (p, q) # n)"
  shows "level_idxs (write_level p q' (m @ (p, q) # n)) = level_idxs m @ q' @ level_idxs n"
  by (simp add: write_level_mid [OF assms])

lemma retain_level_refines:
  assumes ok: "lv_ok g sd lv" and mem: "(p, q) \<in> set lv" "idx \<in> set q"
  shows "lv_ok (g(idx := None)) sd (retain_level p idx lv)"
    and "set (level_idxs (retain_level p idx lv)) = set (level_idxs lv) - {idx}"
    and "fst ` set (retain_level p idx lv) \<subseteq> fst ` set lv"
    and "\<exists>xs ys. orders g (prio t lv) = xs @ the (g idx) # ys \<and>
      orders (g(idx := None)) (prio t (retain_level p idx lv)) = xs @ ys"
proof -
  from ok have bt: "bt_ok lv" and dist: "distinct (level_idxs lv)"
    by (auto simp: lv_ok_def)
  from mem(1) obtain m n where lv: "lv = m @ (p, q) # n"
    by (meson split_list)
  from mem(2) obtain q1 q2 where q: "q = q1 @ idx # q2"
    by (meson split_list)
  have notin: "idx \<notin> set q1" "idx \<notin> set q2" "idx \<notin> set (level_idxs m)" "idx \<notin> set (level_idxs n)"
    using dist by (auto simp: lv q)
  have "filter (\<lambda>i. i \<noteq> idx) q1 = q1" "filter (\<lambda>i. i \<noteq> idx) q2 = q2"
    using notin by (auto simp: filter_id_conv)
  then have filt: "filter (\<lambda>i. i \<noteq> idx) q = q1 @ q2"
    by (simp add: q)
  have rl: "retain_level p idx lv = m @ (if q1 @ q2 = [] then [] else [(p, q1 @ q2)]) @ n"
  proof -
    have "bt_get lv p = Some q"
      using bt mem(1) by (simp add: bt_get_Some_iff)
    then show ?thesis
      using bt write_level_mid [of m p q n "q1 @ q2"] by (simp add: retain_level_def filt lv)
  qed
  show "set (level_idxs (retain_level p idx lv)) = set (level_idxs lv) - {idx}"
    unfolding rl using notin by (auto simp: lv q)
  show "fst ` set (retain_level p idx lv) \<subseteq> fst ` set lv"
    unfolding rl by (auto simp: lv)
  have keep: "queue_ok (g(idx := None)) sd p' q'" if "queue_ok g sd p' q'" "idx \<notin> set q'" for p' q'
    using that by (auto simp: queue_ok_def)
  have qs: "q' \<noteq> [] \<and> queue_ok g sd p' q'" if "(p', q') \<in> set lv" for p' q'
    using ok that by (auto simp: lv_ok_def)
  have "queue_ok g sd p (q1 @ q2)"
    using qs [of p q] by (auto simp: lv q queue_ok_def)
  then have mid: "queue_ok (g(idx := None)) sd p (q1 @ q2)"
    using notin by (intro keep) auto
  have rest: "q' \<noteq> [] \<and> queue_ok (g(idx := None)) sd p' q'" if "(p', q') \<in> set m \<union> set n" for p' q'
  proof -
    have "set q' \<subseteq> set (level_idxs m) \<union> set (level_idxs n)"
      using that by (auto simp: set_level_idxs)
    with notin(3,4) have "idx \<notin> set q'"
      by blast
    with qs [of p' q'] that keep [of p' q'] show ?thesis
      by (auto simp: lv)
  qed
  have "q' \<noteq> [] \<and> queue_ok (g(idx := None)) sd p' q'" if "(p', q') \<in> set (retain_level p idx lv)" for p' q'
  proof -
    from that have "(p', q') \<in> set m \<union> set n \<or> p' = p \<and> q' = q1 @ q2 \<and> q' \<noteq> []"
      unfolding rl by (auto split: if_splits)
    then show ?thesis
      using mid rest [of p' q'] by (elim disjE conjE) simp_all
  qed
  moreover have "bt_ok (retain_level p idx lv)"
    using bt by (simp add: retain_level_def bt_ok_write_level split: option.splits)
  moreover have "distinct (level_idxs (retain_level p idx lv))"
    using dist unfolding rl by (auto simp: lv q split: if_splits)
  ultimately show "lv_ok (g(idx := None)) sd (retain_level p idx lv)"
    by (auto simp: lv_ok_def)
  have same: "orders (g(idx := None)) (prio t m) = orders g (prio t m)"
    "orders (g(idx := None)) (prio t n) = orders g (prio t n)"
    using notin by (auto intro!: orders_cong)
  have sameq: "map (\<lambda>i. the ((g(idx := None)) i)) (q1 @ q2) = map (\<lambda>i. the (g i)) (q1 @ q2)"
    using notin by auto
  have mid: "orders h (prio t (if q' = [] then [] else [(p, q')])) = map (\<lambda>i. the (h i)) q'" for h q'
    by (auto simp: orders_def)
  show "\<exists>xs ys. orders g (prio t lv) = xs @ the (g idx) # ys \<and>
      orders (g(idx := None)) (prio t (retain_level p idx lv)) = xs @ ys"
    (is "\<exists>xs ys. ?before xs ys \<and> ?after xs ys")
  proof (cases t)
    case Bid
    let ?xs = "orders g (prio t m) @ map (\<lambda>i. the (g i)) q1"
    let ?ys = "map (\<lambda>i. the (g i)) q2 @ orders g (prio t n)"
    have "?after ?xs ?ys"
      unfolding rl using same sameq mid [of "g(idx := None)" "q1 @ q2"] by (simp add: Bid)
    moreover have "?before ?xs ?ys"
      by (simp add: Bid lv q prio_Cons orders_def)
    ultimately show ?thesis
      by blast
  next
    case Ask
    let ?xs = "orders g (prio t n) @ map (\<lambda>i. the (g i)) q1"
    let ?ys = "map (\<lambda>i. the (g i)) q2 @ orders g (prio t m)"
    have "?after ?xs ?ys"
      unfolding rl using same sameq mid [of "g(idx := None)" "q1 @ q2"] by (simp add: Ask)
    moreover have "?before ?xs ?ys"
      by (simp add: Ask lv q prio_Cons orders_def)
    ultimately show ?thesis
      by blast
  qed
qed

definition side_levels :: "Side \<Rightarrow> 's OrderBook \<Rightarrow> levels" where
  "side_levels sd b = (case sd of Bid \<Rightarrow> bids b | Ask \<Rightarrow> asks b)"

lemma side_levels_simps [simp]:
  "side_levels Bid b = bids b" "side_levels Ask b = asks b"
  by (simp_all add: side_levels_def)

lemma a_side_abs: "a_side sd (abs_of SO b) = orders (slab_get SO (order_store b)) (prio (opposite sd) (side_levels sd b))"
  by (cases sd) (simp_all add: a_side_def abs_of_def)

lemma book_inv_side: "book_inv SO b \<Longrightarrow> lv_ok (slab_get SO (order_store b)) sd (side_levels sd b)"
  by (cases sd) (simp_all add: book_inv_def)

lemma book_inv_level:
  assumes inv: "book_inv SO b" and g: "slab_get SO (order_store b) idx = Some ord"
  obtains q where "(o_price ord, q) \<in> set (side_levels (o_side ord) b)" "idx \<in> set q"
proof -
  have "idx \<in> dom (slab_get SO (order_store b))"
    using g by blast
  then have "idx \<in> set (level_idxs (side_levels Bid b)) \<or> idx \<in> set (level_idxs (side_levels Ask b))"
    using inv by (simp add: book_inv_def)
  then obtain sd where "idx \<in> set (level_idxs (side_levels sd b))"
    by blast
  then obtain p q where pq: "(p, q) \<in> set (side_levels sd b)" "idx \<in> set q"
    by (auto simp: set_level_idxs)
  then have "queue_ok (slab_get SO (order_store b)) sd p q"
    using book_inv_side [OF inv, of sd] by (auto simp: lv_ok_def)
  with pq(2) g have "o_price ord = p" "o_side ord = sd"
    by (auto simp: queue_ok_def)
  with pq that show thesis
    by blast
qed

lemma book_inv_other_side:
  assumes inv: "book_inv SO b" and q: "(p, q) \<in> set (side_levels sd b)" "idx \<in> set q"
  shows "idx \<notin> set (level_idxs (side_levels (opposite sd) b))"
proof -
  have "idx \<in> set (level_idxs (side_levels sd b))"
    unfolding set_level_idxs using q by (intro UN_I [where a = "(p, q)"]) simp_all
  moreover have "set (level_idxs (bids b)) \<inter> set (level_idxs (asks b)) = {}"
    using inv by (simp add: book_inv_def)
  ultimately show ?thesis
    by (cases sd) auto
qed

lemma book_inv_cancel:
  assumes inv: "book_inv SO b"
    and g: "slab_get SO (order_store b') = (slab_get SO (order_store b))(idx := None)"
    and lv: "side_levels sd b' = lv" "side_levels (opposite sd) b' = side_levels (opposite sd) b"
    and ok: "lv_ok ((slab_get SO (order_store b))(idx := None)) sd lv"
    and idxs: "set (level_idxs lv) = set (level_idxs (side_levels sd b)) - {idx}"
    and keys: "fst ` set lv \<subseteq> fst ` set (side_levels sd b)"
    and other: "lv_ok ((slab_get SO (order_store b))(idx := None)) (opposite sd) (side_levels (opposite sd) b)"
    and notin: "idx \<notin> set (level_idxs (side_levels (opposite sd) b))"
  shows "book_inv SO b'"
proof -
  have dom: "dom (slab_get SO (order_store b)) = set (level_idxs (bids b)) \<union> set (level_idxs (asks b))"
    using inv by (simp add: book_inv_def)
  show ?thesis
  proof (cases sd)
    case Bid
    show ?thesis
      by (rule book_inv_shrink [OF inv]) (use lv ok other idxs keys notin dom in \<open>auto simp: g Bid\<close>)
  next
    case Ask
    show ?thesis
      by (rule book_inv_shrink [OF inv]) (use lv ok other idxs keys notin dom in \<open>auto simp: g Ask\<close>)
  qed
qed


section \<open>The effect of a cancellation\<close>

lemma cancel_no_target: "cancel_target SO oid uid b = None \<Longrightarrow> cancel_order SO oid uid b = Inr (b, [])"
  by (auto simp: cancel_target_def cancel_order_def split: option.splits if_splits)

lemma cancel_targetD:
  assumes "cancel_target SO oid uid b = Some (idx, ord)"
  shows "order_index b oid = Some idx" "slab_get SO (order_store b) idx = Some ord" "o_user_id ord = uid"
  using assms by (auto simp: cancel_target_def split: option.splits if_splits)

context order_slab
begin

lemma cancel_result:
  assumes tgt: "cancel_target SO oid uid b = Some (idx, ord)"
  obtains b' where "cancel_order SO oid uid b = Inr (b', [OrderCancelled oid])"
    and "slab_get SO (order_store b') = (slab_get SO (order_store b))(idx := None)"
    and "order_index b' = (order_index b)(oid := None)"
    and "side_levels (o_side ord) b' = retain_level (o_price ord) idx (side_levels (o_side ord) b)"
    and "side_levels (opposite (o_side ord)) b' = side_levels (opposite (o_side ord)) b"
proof -
  note D = cancel_targetD [OF tgt]
  obtain st where st: "slab_remove SO idx (order_store b) = Inr (ord, st)"
    "slab_get SO st = (slab_get SO (order_store b))(idx := None)"
    using remove_occupiedE [OF D(2)] by blast
  show thesis
  proof (cases "o_side ord")
    case Bid
    let ?b = "b\<lparr>bids := retain_level (o_price ord) idx (bids b),
      order_index := (order_index b)(oid := None), order_store := st\<rparr>"
    show thesis
      by (rule that [of ?b]) (simp_all add: cancel_order_def D st Bid)
  next
    case Ask
    let ?b = "b\<lparr>asks := retain_level (o_price ord) idx (asks b),
      order_index := (order_index b)(oid := None), order_store := st\<rparr>"
    show thesis
      by (rule that [of ?b]) (simp_all add: cancel_order_def D st Ask)
  qed
qed

lemma cancel_refines:
  assumes inv: "book_inv SO b" and tgt: "cancel_target SO oid uid b = Some (idx, ord)"
  obtains b' xs ys where "cancel_order SO oid uid b = Inr (b', [OrderCancelled oid])" "book_inv SO b'"
    and "slab_get SO (order_store b') = (slab_get SO (order_store b))(idx := None)"
    and "order_index b' = (order_index b)(oid := None)"
    and "a_side (opposite (o_side ord)) (abs_of SO b') = a_side (opposite (o_side ord)) (abs_of SO b)"
    and "a_side (o_side ord) (abs_of SO b) = xs @ ord # ys"
    and "a_side (o_side ord) (abs_of SO b') = xs @ ys"
proof -
  let ?sd = "o_side ord" and ?g = "slab_get SO (order_store b)"
  note D = cancel_targetD [OF tgt]
  obtain b' where b': "cancel_order SO oid uid b = Inr (b', [OrderCancelled oid])"
    "slab_get SO (order_store b') = ?g(idx := None)" "order_index b' = (order_index b)(oid := None)"
    "side_levels ?sd b' = retain_level (o_price ord) idx (side_levels ?sd b)"
    "side_levels (opposite ?sd) b' = side_levels (opposite ?sd) b"
    using cancel_result [OF tgt] by blast
  obtain q where q: "(o_price ord, q) \<in> set (side_levels ?sd b)" "idx \<in> set q"
    using book_inv_level [OF inv D(2)] by blast
  note R = retain_level_refines [OF book_inv_side [OF inv] q]
  have notin: "idx \<notin> set (level_idxs (side_levels (opposite ?sd) b))"
    by (rule book_inv_other_side [OF inv q])
  then have other: "lv_ok (?g(idx := None)) (opposite ?sd) (side_levels (opposite ?sd) b)"
    using book_inv_side [OF inv, of "opposite ?sd"] by (subst lv_ok_cong [where g' = ?g]) auto
  have oth: "orders (?g(idx := None)) (prio t (side_levels (opposite ?sd) b)) =
      orders ?g (prio t (side_levels (opposite ?sd) b))" for t
    using notin by (intro orders_cong) auto
  obtain xs ys where xy: "orders ?g (prio (opposite ?sd) (side_levels ?sd b)) = xs @ the (?g idx) # ys"
    "orders (?g(idx := None)) (prio (opposite ?sd) (retain_level (o_price ord) idx (side_levels ?sd b))) = xs @ ys"
    using R(4) by blast
  have "book_inv SO b'"
    by (rule book_inv_cancel [OF inv b'(2) b'(4,5) R(1-3) other notin])
  then show thesis
    using that [of b' xs ys] b' xy oth D(2) by (simp add: a_side_abs)
qed

end

section \<open>Completeness of the index\<close>

text \<open>
  Every resting order is found under its own id.  The converse does not hold: entries of
  orders that were filled or cancelled by self-trade prevention stay in the index.
\<close>

definition index_complete :: "(Order, 's) slab_ops \<Rightarrow> 's OrderBook \<Rightarrow> bool" where
  "index_complete SO b \<longleftrightarrow>
     (\<forall>i ord. slab_get SO (order_store b) i = Some ord \<longrightarrow> order_index b (o_id ord) = Some i)"

definition live_ids :: "(Order, 's) slab_ops \<Rightarrow> 's OrderBook \<Rightarrow> OrderId set" where
  "live_ids SO b = o_id ` ran (slab_get SO (order_store b))"

lemma mem_live_ids: "x \<in> live_ids SO b \<longleftrightarrow> (\<exists>i ord. slab_get SO (order_store b) i = Some ord \<and> o_id ord = x)"
  by (auto simp: live_ids_def ran_def)

text \<open>The taker phase introduces no order: slots are cleared or keep the id of their order.\<close>

definition ids_kept :: "(nat \<rightharpoonup> Order) \<Rightarrow> (nat \<rightharpoonup> Order) \<Rightarrow> bool" where
  "ids_kept g g' \<longleftrightarrow> (\<forall>i ord'. g' i = Some ord' \<longrightarrow> (\<exists>ord. g i = Some ord \<and> o_id ord = o_id ord'))"

lemma ids_kept_refl [simp]: "ids_kept g g"
  by (simp add: ids_kept_def)

lemma ids_kept_trans: "ids_kept g g' \<Longrightarrow> ids_kept g' g'' \<Longrightarrow> ids_kept g g''"
  unfolding ids_kept_def by metis

lemma ids_kept_clear: "ids_kept g (g(i := None))"
  by (auto simp: ids_kept_def)

lemma ids_kept_cleared: "ids_kept (g(i := None)) g' \<Longrightarrow> ids_kept g g'"
  by (rule ids_kept_trans [OF ids_kept_clear])

lemma ids_kept_update: "g i = Some mk \<Longrightarrow> o_id mk' = o_id mk \<Longrightarrow> ids_kept g (g(i \<mapsto> mk'))"
  by (auto simp: ids_kept_def)

context order_slab
begin

lemma match_level_ids:
  "match_level SO oid uid bp qty st q = Inr (qty', st', q', evs) \<Longrightarrow> ids_kept (slab_get SO st) (slab_get SO st')"
proof (induction q arbitrary: uid qty st evs)
  case Nil
  then show ?case
    by simp
next
  case (Cons idx q)
  from Cons.prems show ?case
  proof (cases rule: match_level_ConsE)
    case (self mk x st1 evs1)
    have "slab_get SO st1 = (slab_get SO st)(idx := None)"
      using remove_occupied [OF self(1)] self(3) by auto
    with Cons.IH [OF self(4)] show ?thesis
      by (intro ids_kept_cleared [of "slab_get SO st" idx]) argo
  next
    case (fill mk x st1 evs1)
    have "slab_get SO st1 = (slab_get SO st)(idx := None)"
      using remove_after_set [OF fill(1)] fill(4) by (metis Inr_inject prod.inject)
    with Cons.IH [OF fill(5)] show ?thesis
      by (intro ids_kept_cleared [of "slab_get SO st" idx]) argo
  next
    case (stop mk x)
    have "slab_get SO st' = (slab_get SO st)(idx := None)"
      using remove_after_set [OF stop(1)] stop(4) by (metis Inr_inject prod.inject)
    then show ?thesis
      by (metis ids_kept_clear)
  next
    case (partly mk)
    have "slab_get SO st' = (slab_get SO st)(idx \<mapsto> mk\<lparr>o_quantity := o_quantity mk - qty\<rparr>)"
      using get_set [OF partly(1)] partly(4) by simp
    moreover have "ids_kept (slab_get SO st) ((slab_get SO st)(idx \<mapsto> mk\<lparr>o_quantity := o_quantity mk - qty\<rparr>))"
      by (rule ids_kept_update [where mk = mk]) (simp_all add: partly(1))
    ultimately show ?thesis
      by argo
  qed
qed

end

lemma match_loop_ids:
  assumes "order_slab SO" "match_loop SO oid uid side price qty st lv = Inr (qty', st', lv', evs)"
  shows "ids_kept (slab_get SO st) (slab_get SO st')"
  using assms
proof (induction SO oid uid side price qty st lv arbitrary: qty' st' lv' evs rule: match_loop.induct)
  case (1 SO oid uid side price qty st lv)
  note run = 1(3) [unfolded match_loop.simps [of SO oid uid side price qty st lv]]
  show ?case
  proof (cases "qty = 0 \<or> best_level side lv = None")
    case True
    with run show ?thesis
      by (auto split: if_splits)
  next
    case False
    then obtain bp q where best: "best_level side lv = Some (bp, q)" "qty \<noteq> 0"
      by (cases "best_level side lv") auto
    show ?thesis
    proof (cases "is_matchable side bp price")
      case False
      with run best show ?thesis
        by simp
    next
      case True
      with run best obtain qty1 st1 q1 evs1 evs2 where
        lev: "match_level SO oid uid bp qty st q = Inr (qty1, st1, q1, evs1)" and
        rest: "match_loop SO oid uid side price qty1 st1 (write_level bp q1 lv) = Inr (qty', st', lv', evs2)"
        by (auto simp: panic_simps)
      have "ids_kept (slab_get SO st1) (slab_get SO st')"
        by (rule 1(1) [OF best(2) best(1) refl _ lev refl refl refl 1(2) rest]) (use True in simp)
      with order_slab.match_level_ids [OF 1(2) lev] show ?thesis
        by (rule ids_kept_trans)
    qed
  qed
qed

lemma match_loop_index:
  "order_index (set_opposite_levels side lv b) = order_index b"
  "order_store (set_opposite_levels side lv b) = order_store b"
  by (cases side; simp add: set_opposite_levels_def)+

context order_slab
begin

text \<open>
  Placing keeps the index complete as long as the id of the new order is not the id of an
  order that still rests on the book.
\<close>

lemma place_maker_store:
  obtains idx ord where "o_id ord = oid"
    and "slab_get SO (order_store (place_maker SO oid uid side price qty b)) =
      (slab_get SO (order_store b))(idx \<mapsto> ord)"
    and "order_index (place_maker SO oid uid side price qty b) = (order_index b)(oid \<mapsto> idx)"
proof -
  define ord where "ord = \<lparr>o_id = oid, o_user_id = uid, o_price = price, o_quantity = qty, o_side = side,
    o_timestamp = 0\<rparr>"
  obtain idx st where ins: "slab_insert SO ord (order_store b) = (idx, st)"
    and "slab_get SO (order_store b) idx = None" and g: "slab_get SO st = (slab_get SO (order_store b))(idx \<mapsto> ord)"
    by (rule insertE)
  have st: "order_store (place_maker SO oid uid side price qty b) = st"
    using ins by (cases side) (simp_all add: place_maker_def ord_def)
  have ix: "order_index (place_maker SO oid uid side price qty b) = (order_index b)(oid \<mapsto> idx)"
    using ins by (cases side) (simp_all add: place_maker_def ord_def)
  show thesis
    by (rule that [of ord idx]) (simp_all add: st ix g ord_def)
qed

lemma place_maker_index:
  assumes "index_complete SO b" "oid \<notin> live_ids SO b"
  shows "index_complete SO (place_maker SO oid uid side price qty b)"
proof -
  obtain idx ord where ord: "o_id ord = oid"
    and g: "slab_get SO (order_store (place_maker SO oid uid side price qty b)) =
      (slab_get SO (order_store b))(idx \<mapsto> ord)"
    and ix: "order_index (place_maker SO oid uid side price qty b) = (order_index b)(oid \<mapsto> idx)"
    by (rule place_maker_store)
  show ?thesis
    unfolding index_complete_def ix g
  proof (intro allI impI)
    fix i x
    assume "((slab_get SO (order_store b))(idx \<mapsto> ord)) i = Some x"
    then consider "i = idx" "x = ord" | "i \<noteq> idx" "slab_get SO (order_store b) i = Some x"
      by (auto split: if_splits)
    then show "((order_index b)(oid \<mapsto> idx)) (o_id x) = Some i"
    proof cases
      case 1
      with ord show ?thesis
        by simp
    next
      case 2
      with assms have "o_id x \<noteq> oid" "order_index b (o_id x) = Some i"
        by (auto simp: index_complete_def live_ids_def ran_def)
      then show ?thesis
        by simp
    qed
  qed
qed

lemma place_maker_live_ids:
  "live_ids SO (place_maker SO oid uid side price qty b) \<subseteq> insert oid (live_ids SO b)"
proof -
  obtain idx ord where "o_id ord = oid"
    and g: "slab_get SO (order_store (place_maker SO oid uid side price qty b)) =
      (slab_get SO (order_store b))(idx \<mapsto> ord)"
    and "order_index (place_maker SO oid uid side price qty b) = (order_index b)(oid \<mapsto> idx)"
    by (rule place_maker_store)
  then show ?thesis
    by (auto simp: live_ids_def g ran_def split: if_splits)
qed

lemma ids_kept_live: "ids_kept (slab_get SO (order_store b)) (slab_get SO (order_store b')) \<Longrightarrow>
    live_ids SO b' \<subseteq> live_ids SO b"
  unfolding ids_kept_def subset_eq Ball_def mem_live_ids by metis

text \<open>A placement is the taker phase, after which the index is as before, and perhaps the maker phase.\<close>

lemma place_phases:
  assumes "place_limit_order SO oid uid side price qty b = Inr (b', evs)"
  obtains b1 qty' where "ids_kept (slab_get SO (order_store b)) (slab_get SO (order_store b1))"
    and "order_index b1 = order_index b"
    and "b' = b1 \<or> b' = place_maker SO oid uid side price qty' b1"
proof -
  from assms obtain qty' st lv evs' where
    loop: "match_loop SO oid uid side price qty (order_store b) (opposite_levels side b) = Inr (qty', st, lv, evs')"
    and b': "b' = (let b1 = set_opposite_levels side lv (b\<lparr>order_store := st\<rparr>)
      in if qty' > 0 then place_maker SO oid uid side price qty' b1 else b1)"
    by (auto simp: place_limit_order_def panic_simps Let_def split: if_splits)
  have "ids_kept (slab_get SO (order_store b)) (slab_get SO st)"
    using order_slab_axioms loop by (rule match_loop_ids)
  with b' show thesis
    by (intro that [of "set_opposite_levels side lv (b\<lparr>order_store := st\<rparr>)" qty'])
       (simp_all add: match_loop_index Let_def)
qed

lemma place_index:
  assumes ic: "index_complete SO b" and fresh: "oid \<notin> live_ids SO b"
    and run: "place_limit_order SO oid uid side price qty b = Inr (b', evs)"
  shows "index_complete SO b'"
proof -
  from run obtain b1 qty' where kept: "ids_kept (slab_get SO (order_store b)) (slab_get SO (order_store b1))"
    and ix: "order_index b1 = order_index b"
    and b': "b' = b1 \<or> b' = place_maker SO oid uid side price qty' b1"
    by (rule place_phases)
  have "index_complete SO b1"
    using ic kept unfolding index_complete_def ids_kept_def ix by metis
  moreover have "oid \<notin> live_ids SO b1"
    using fresh ids_kept_live [OF kept] by blast
  ultimately show ?thesis
    using b' place_maker_index by blast
qed

lemma place_live_ids:
  assumes run: "place_limit_order SO oid uid side price qty b = Inr (b', evs)"
  shows "live_ids SO b' \<subseteq> insert oid (live_ids SO b)"
proof -
  from run obtain b1 qty' where kept: "ids_kept (slab_get SO (order_store b)) (slab_get SO (order_store b1))"
    and "order_index b1 = order_index b"
    and b': "b' = b1 \<or> b' = place_maker SO oid uid side price qty' b1"
    by (rule place_phases)
  with place_maker_live_ids [of oid uid side price qty' b1] ids_kept_live [OF kept] show ?thesis
    by blast
qed

lemma cancel_store:
  assumes run: "cancel_order SO oid uid b = Inr (b', evs)"
  shows "b' = b \<or> (\<exists>idx ord. order_index b oid = Some idx \<and> slab_get SO (order_store b) idx = Some ord \<and>
    slab_get SO (order_store b') = (slab_get SO (order_store b))(idx := None) \<and>
    order_index b' = (order_index b)(oid := None))"
proof (cases "cancel_target SO oid uid b")
  case None
  with run show ?thesis
    by (simp add: cancel_no_target)
next
  case (Some t)
  then obtain idx ord where tgt: "cancel_target SO oid uid b = Some (idx, ord)"
    by (cases t) auto
  from cancel_result [OF tgt] run cancel_targetD [OF tgt] show ?thesis
    by (metis Inr_inject prod.inject)
qed

lemma cancel_index:
  assumes "index_complete SO b" "cancel_order SO oid uid b = Inr (b', evs)"
  shows "index_complete SO b'"
  using cancel_store [OF assms(2)] assms(1) unfolding index_complete_def by (auto split: if_splits)

lemma cancel_live_ids:
  assumes "cancel_order SO oid uid b = Inr (b', evs)"
  shows "live_ids SO b' \<subseteq> live_ids SO b"
  using cancel_store [OF assms] by (auto simp: mem_live_ids split: if_splits) blast

lemma index_complete_target:
  assumes "index_complete SO b" "slab_get SO (order_store b) i = Some ord"
  shows "cancel_target SO (o_id ord) (o_user_id ord) b = Some (i, ord)"
  using assms by (simp add: index_complete_def cancel_target_def)

end

end
