(* ===== verification/Order_Trades.thy ===== *)
theory Order_Trades
  imports Order_Cancel
begin

text \<open>
  What the abstract matching of an incoming order guarantees, carried over to
  \<^verbatim>\<open>place_limit_order\<close>: quantity is conserved, every trade is within the limit of the
  taker, names a resting order of another user and is priced at that order's price; the
  sides of the book stay sorted by price and uncrossed; and the aggregated depth.
\<close>

section \<open>Quantities of events and orders\<close>

definition traded :: "EngineEvent list \<Rightarrow> nat" where
  "traded evs = sum_list (map (\<lambda>ev. case ev of TradeExecuted _ _ _ q \<Rightarrow> unat q | _ \<Rightarrow> 0) evs)"

definition rested :: "EngineEvent list \<Rightarrow> nat" where
  "rested evs = sum_list (map (\<lambda>ev. case ev of OrderPlaced _ _ _ q _ \<Rightarrow> unat q | _ \<Rightarrow> 0) evs)"

definition volume :: "Order list \<Rightarrow> nat" where
  "volume xs = sum_list (map (\<lambda>x. unat (o_quantity x)) xs)"

definition volume_of_others :: "UserId \<Rightarrow> Order list \<Rightarrow> nat" where
  "volume_of_others uid xs = volume (filter (\<lambda>x. o_user_id x \<noteq> uid) xs)"

lemma traded_simps [simp]:
  "traded [] = 0"
  "traded (OrderCancelled i # evs) = traded evs"
  "traded (TradeExecuted m t p q # evs) = unat q + traded evs"
  "traded (OrderPlaced i u p q s # evs) = traded evs"
  "traded (evs @ evs') = traded evs + traded evs'"
  by (simp_all add: traded_def)

lemma rested_simps [simp]:
  "rested [] = 0"
  "rested (OrderCancelled i # evs) = rested evs"
  "rested (TradeExecuted m t p q # evs) = rested evs"
  "rested (OrderPlaced i u p q s # evs) = unat q + rested evs"
  "rested (evs @ evs') = rested evs + rested evs'"
  by (simp_all add: rested_def)

lemma volume_simps [simp]:
  "volume [] = 0" "volume (x # xs) = unat (o_quantity x) + volume xs"
  "volume (xs @ ys) = volume xs + volume ys"
  by (simp_all add: volume_def)

lemma volume_of_others_simps [simp]:
  "volume_of_others uid [] = 0"
  "volume_of_others uid (x # xs) =
     (if o_user_id x = uid then 0 else unat (o_quantity x)) + volume_of_others uid xs"
  by (simp_all add: volume_of_others_def)

lemma unat_sub_le: "(b :: u64) \<le> a \<Longrightarrow> unat (a - b) = unat a - unat b"
  by (rule unat_sub)

lemma spec_match_conserves:
  "spec_match oid uid side price qty xs = (qty', rest, evs) \<Longrightarrow> unat qty' + traded evs = unat qty"
proof (induction oid uid side price qty xs arbitrary: qty' rest evs rule: spec_match.induct)
  case (2 oid uid side price qty mk xs)
  show ?case
  proof (cases "o_quantity mk \<le> qty")
    case True
    then have "unat (o_quantity mk) \<le> unat qty" "unat (qty - o_quantity mk) = unat qty - unat (o_quantity mk)"
      by (simp_all add: word_le_nat_alt unat_sub)
    with 2 True show ?thesis
      by (fastforce split: if_splits prod.splits)
  qed (use 2 in \<open>auto split: if_splits prod.splits\<close>)
qed simp

lemma spec_match_volume:
  "spec_match oid uid side price qty xs = (qty', rest, evs) \<Longrightarrow>
     volume_of_others uid xs = volume_of_others uid rest + traded evs"
proof (induction oid uid side price qty xs arbitrary: qty' rest evs rule: spec_match.induct)
  case (2 oid uid side price qty mk xs)
  show ?case
  proof (cases "o_quantity mk \<le> qty")
    case True
    with 2 show ?thesis
      by (fastforce split: if_splits prod.splits)
  next
    case False
    then have "unat qty \<le> unat (o_quantity mk)" "unat (o_quantity mk - qty) = unat (o_quantity mk) - unat qty"
      by (simp_all add: word_le_nat_alt unat_sub)
    with 2 False show ?thesis
      by (auto split: if_splits prod.splits)
  qed
qed simp

text \<open>The resting order a trade was executed against, and the order self-trade prevention cancelled.\<close>

definition fair_trade ::
  "OrderId \<Rightarrow> UserId \<Rightarrow> Side \<Rightarrow> Price \<Rightarrow> Order list \<Rightarrow> EngineEvent \<Rightarrow> bool" where
  "fair_trade oid uid side price xs ev =
     (case ev of
        TradeExecuted m t p q \<Rightarrow> t = oid \<and> 0 < q \<and> is_matchable side p price \<and>
          (\<exists>mk \<in> set xs. o_id mk = m \<and> o_price mk = p \<and> o_user_id mk \<noteq> uid \<and> q \<le> o_quantity mk)
      | OrderCancelled i \<Rightarrow> (\<exists>mk \<in> set xs. o_id mk = i \<and> o_user_id mk = uid)
      | _ \<Rightarrow> False)"

lemma fair_trade_simps [simp]:
  "fair_trade oid uid side price xs (OrderCancelled i) \<longleftrightarrow> (\<exists>mk \<in> set xs. o_id mk = i \<and> o_user_id mk = uid)"
  "fair_trade oid uid side price xs (TradeExecuted m t p q) \<longleftrightarrow> t = oid \<and> 0 < q \<and> is_matchable side p price \<and>
     (\<exists>mk \<in> set xs. o_id mk = m \<and> o_price mk = p \<and> o_user_id mk \<noteq> uid \<and> q \<le> o_quantity mk)"
  by (simp_all add: fair_trade_def)

lemma fair_trade_mono: "fair_trade oid uid side price xs ev \<Longrightarrow> fair_trade oid uid side price (x # xs) ev"
  by (auto simp: fair_trade_def split: EngineEvent.splits)

lemma spec_match_fair:
  assumes "spec_match oid uid side price qty xs = (qty', rest, evs)"
    and "\<forall>x \<in> set xs. 0 < o_quantity x" "ev \<in> set evs"
  shows "fair_trade oid uid side price xs ev"
  using assms
proof (induction xs arbitrary: qty rest evs)
  case (Cons mk xs)
  from Cons.prems(2) have pos: "0 < o_quantity mk" "\<forall>x \<in> set xs. 0 < o_quantity x"
    by auto
  consider (stop) "qty = 0 \<or> \<not> is_matchable side (o_price mk) price"
    | (self) "qty \<noteq> 0" "is_matchable side (o_price mk) price" "o_user_id mk = uid"
    | (fill) "qty \<noteq> 0" "is_matchable side (o_price mk) price" "o_user_id mk \<noteq> uid" "o_quantity mk \<le> qty"
    | (part) "qty \<noteq> 0" "is_matchable side (o_price mk) price" "o_user_id mk \<noteq> uid" "\<not> o_quantity mk \<le> qty"
    by blast
  then show ?case
  proof cases
    case stop
    with Cons.prems show ?thesis
      by auto
  next
    case self
    with Cons.prems(1) obtain e1 where sm: "spec_match oid uid side price qty xs = (qty', rest, e1)"
      and "evs = OrderCancelled (o_id mk) # e1"
      by (auto split: prod.splits)
    with Cons.prems(3) have "ev = OrderCancelled (o_id mk) \<or> ev \<in> set e1"
      by auto
    then show ?thesis
      using Cons.IH [OF sm pos(2)] self by (auto intro: fair_trade_mono)
  next
    case fill
    with Cons.prems(1) obtain e1
      where sm: "spec_match oid uid side price (qty - o_quantity mk) xs = (qty', rest, e1)"
        and "evs = TradeExecuted (o_id mk) oid (o_price mk) (o_quantity mk) # e1"
      by (auto split: prod.splits)
    with Cons.prems(3) have "ev = TradeExecuted (o_id mk) oid (o_price mk) (o_quantity mk) \<or> ev \<in> set e1"
      by auto
    then show ?thesis
      using Cons.IH [OF sm pos(2)] fill pos(1) by (auto intro: fair_trade_mono)
  next
    case part
    with Cons.prems show ?thesis
      by (auto simp: fair_trade_def word_gt_0)
  qed
qed simp

section \<open>Price order and the spread\<close>

lemma sorted_orders:
  assumes "sorted_wrt (\<lambda>pq pq'. R (fst pq) (fst pq')) L" "\<forall>(p, q) \<in> set L. queue_ok g sd p q" "\<And>p. R p p"
  shows "sorted_wrt (\<lambda>x y. R (o_price x) (o_price y)) (orders g L)"
  using assms(1,2)
proof (induction L)
  case (Cons pq L)
  obtain p q where pq: "pq = (p, q)"
    by (cases pq)
  have q: "o_price (the (g i)) = p" if "i \<in> set q" for i
    using Cons.prems(2) that by (auto simp: pq queue_ok_def)
  have "sorted_wrt (\<lambda>x y. R (o_price x) (o_price y)) (map (\<lambda>i. the (g i)) q)"
    using assms(3) q by (auto simp: sorted_wrt_map sorted_wrt_iff_nth_less)
  moreover have "R (o_price x) (o_price y)" if "x \<in> set (map (\<lambda>i. the (g i)) q)" "y \<in> set (orders g L)" for x y
  proof -
    have "o_price y \<in> fst ` set L"
      by (rule order_price [OF _ that(2)]) (use Cons.prems(2) in auto)
    with Cons.prems(1) that(1) q show ?thesis
      by (auto simp: pq)
  qed
  ultimately show ?case
    using Cons by (simp add: pq sorted_wrt_append)
qed (simp add: orders_def level_idxs_def)

lemma side_sorted:
  assumes "lv_ok g sd lv"
  shows "sorted_wrt (\<lambda>x y. at_least_as_good sd (o_price x) (o_price y)) (orders g (prio (opposite sd) lv))"
proof (rule sorted_orders)
  have "sorted_wrt (\<lambda>pq pq'. fst pq < fst pq') lv"
    using assms by (simp add: lv_ok_def bt_ok_def sorted_wrt_map)
  then show "sorted_wrt (\<lambda>pq pq'. at_least_as_good sd (fst pq) (fst pq')) (prio (opposite sd) lv)"
    by (cases sd) (auto simp: prio_def at_least_as_good_def sorted_wrt_rev elim!: sorted_wrt_mono_rel [rotated])
  show "\<forall>(p, q) \<in> set (prio (opposite sd) lv). queue_ok g sd p q"
    using assms by (auto simp: lv_ok_def)
qed (simp add: at_least_as_good_def split: Side.splits)

lemma side_orders:
  assumes inv: "book_inv SO b" and x: "x \<in> set (a_side sd (abs_of SO b))"
  shows "0 < o_quantity x" "o_side x = sd" "o_price x \<in> fst ` set (side_levels sd b)"
    "\<exists>i. slab_get SO (order_store b) i = Some x"
proof -
  let ?g = "slab_get SO (order_store b)"
  note ok = book_inv_side [OF inv, of sd]
  from x obtain i where i: "i \<in> set (level_idxs (side_levels sd b))" "x = the (?g i)"
    by (auto simp: a_side_abs orders_def)
  then obtain p q where pq: "(p, q) \<in> set (side_levels sd b)" "i \<in> set q"
    by (auto simp: set_level_idxs)
  with ok have "queue_ok ?g sd p q"
    by (auto simp: lv_ok_def)
  with pq(2) i(2) have *: "?g i = Some x" "o_price x = p" "o_side x = sd" "0 < o_quantity x"
    by (auto simp: queue_ok_def)
  then show "0 < o_quantity x" "o_side x = sd" "\<exists>i. ?g i = Some x"
    by auto
  from pq(1) show "o_price x \<in> fst ` set (side_levels sd b)"
    unfolding *(2) by (intro image_eqI [where x = "(p, q)"]) simp_all
qed

lemma a_opposite_side: "a_opposite side A = a_side (opposite side) A"
  by (cases side) (simp_all add: a_opposite_def a_side_def)

lemma book_uncrossed:
  assumes inv: "book_inv SO b" and "x \<in> set (a_bids (abs_of SO b))" "y \<in> set (a_asks (abs_of SO b))"
  shows "o_price x < o_price y"
proof -
  have "o_price x \<in> fst ` set (bids b)" "o_price y \<in> fst ` set (asks b)"
    using side_orders(3) [OF inv, of x Bid] side_orders(3) [OF inv, of y Ask] assms(2,3)
    by (simp_all add: a_side_def)
  moreover have "\<forall>p \<in> fst ` set (bids b). \<forall>p' \<in> fst ` set (asks b). p < p'"
    using inv unfolding book_inv_def by (elim conjE)
  ultimately show ?thesis
    by blast
qed

end
