(* ===== verification/Order_Engine.thy ===== *)
theory Order_Engine
  imports Order_Trades
begin

text \<open>
  The order book as a state machine over log entries (the recovery loop of
  \<^verbatim>\<open>MarketProcessor::new\<close> in \<^verbatim>\<open>zkapp/engine/src/processor.rs\<close> and, entry by entry, the
  effect of the commands on the book), the depth query, and the properties of the book.
\<close>

section \<open>Applying log entries\<close>

fun apply_entry :: "(Order, 's) slab_ops \<Rightarrow> LogEntry \<Rightarrow> 's OrderBook \<Rightarrow> rust_panic + 's OrderBook" where
  "apply_entry SO (Place oid uid side price qty) b =
     bindR (place_limit_order SO oid uid side price qty b) (\<lambda>(b', _). Inr b')"
| "apply_entry SO (Cancel oid uid) b = bindR (cancel_order SO oid uid b) (\<lambda>(b', _). Inr b')"

definition replay :: "(Order, 's) slab_ops \<Rightarrow> LogEntry list \<Rightarrow> 's OrderBook \<Rightarrow> rust_panic + 's OrderBook" where
  "replay SO entries b = run_steps (apply_entry SO) entries b"

fun place_id :: "LogEntry \<Rightarrow> OrderId list" where
  "place_id (Place oid _ _ _ _) = [oid]"
| "place_id (Cancel _ _) = []"

text \<open>The ids under which the entries of a log place orders.\<close>

definition place_ids :: "LogEntry list \<Rightarrow> OrderId list" where
  "place_ids es = concat (map place_id es)"

lemma place_ids_simps [simp]:
  "place_ids [] = []" "place_ids (e # es) = place_id e @ place_ids es"
  by (simp_all add: place_ids_def)

context order_slab
begin

lemma new_book_inv: "book_inv SO (new_book SO)"
  by (simp add: book_inv_def new_book_def lv_ok_def get_new)

lemma cancel_safe:
  assumes "book_inv SO b"
  shows "\<exists>b' evs. cancel_order SO oid uid b = Inr (b', evs) \<and> book_inv SO b'"
proof (cases "cancel_target SO oid uid b")
  case None
  with assms show ?thesis
    by (simp add: cancel_no_target)
next
  case (Some t)
  then obtain idx ord where "cancel_target SO oid uid b = Some (idx, ord)"
    by (cases t) simp
  then show ?thesis
    using cancel_refines [OF assms] by metis
qed

end

sublocale order_slab \<subseteq> entries: panic_free "apply_entry SO" "book_inv SO" "\<lambda>_. True"
proof
  fix b e
  assume inv: "book_inv SO b"
  show "\<exists>b'. apply_entry SO e b = Inr b' \<and> book_inv SO b'"
  proof (cases e)
    case (Place oid uid side price qty)
    with place_refines [OF inv, of oid uid side price qty] show ?thesis
      by auto
  next
    case (Cancel oid uid)
    with cancel_safe [OF inv, of oid uid] show ?thesis
      by auto
  qed
qed

context order_slab
begin

lemma replay_inv: "\<exists>b. replay SO es (new_book SO) = Inr b \<and> book_inv SO b"
  unfolding replay_def using entries.run_safe [OF new_book_inv] by simp

end

text \<open>The slab of the standard vector implementation provides the order store.\<close>

interpretation vos: order_slab vec_slab ..

section \<open>Logs that place every id once\<close>

context order_slab
begin

lemma replay_index:
  assumes "index_complete SO b" "live_ids SO b \<inter> set (place_ids es) = {}" "distinct (place_ids es)"
    and "replay SO es b = Inr b'"
  shows "index_complete SO b'"
  using assms
proof (induction es arbitrary: b)
  case Nil
  then show ?case
    by (simp add: replay_def)
next
  case (Cons e es)
  from Cons.prems(4) obtain b1 where e: "apply_entry SO e b = Inr b1" and rest: "replay SO es b1 = Inr b'"
    by (auto simp: replay_def panic_simps)
  have "index_complete SO b1 \<and> live_ids SO b1 \<subseteq> live_ids SO b \<union> set (place_id e)"
  proof (cases e)
    case (Place oid uid side price qty)
    with e obtain evs where "place_limit_order SO oid uid side price qty b = Inr (b1, evs)"
      by (auto simp: panic_simps)
    with place_index [OF Cons.prems(1)] place_live_ids Cons.prems(2) Place show ?thesis
      by fastforce
  next
    case (Cancel oid uid)
    with e obtain evs where "cancel_order SO oid uid b = Inr (b1, evs)"
      by (auto simp: panic_simps)
    with cancel_index [OF Cons.prems(1)] cancel_live_ids Cancel show ?thesis
      by fastforce
  qed
  with Cons.prems(2,3) show ?case
    by (intro Cons.IH [OF _ _ _ rest]) auto
qed

lemma new_book_index: "index_complete SO (new_book SO)" "live_ids SO (new_book SO) = {}"
  by (simp_all add: index_complete_def live_ids_def new_book_def get_new)

end

section \<open>Depth\<close>

lemma remdups_adj_run:
  "xs \<noteq> [] \<Longrightarrow> \<forall>x \<in> set xs. x = p \<Longrightarrow> ys = [] \<or> hd ys \<noteq> p \<Longrightarrow> remdups_adj (xs @ ys) = p # remdups_adj ys"
proof (induction xs)
  case (Cons x xs)
  then show ?case
    by (cases xs; cases ys) auto
qed simp

lemma depth_prices:
  assumes "distinct (map fst L)" "\<forall>(p, q) \<in> set L. q \<noteq> [] \<and> queue_ok g sd p q"
  shows "remdups_adj (map o_price (orders g L)) = map fst L"
  using assms
proof (induction L)
  case (Cons pq L)
  obtain p q where pq: "pq = (p, q)"
    by (cases pq)
  have IH: "remdups_adj (map o_price (orders g L)) = map fst L"
    using Cons by simp
  have "set (map o_price (orders g L)) = set (map fst L)"
    using IH by (metis remdups_adj_set)
  with Cons.prems(1) have "p \<notin> set (map o_price (orders g L))"
    by (simp add: pq)
  then have "map o_price (orders g L) = [] \<or> hd (map o_price (orders g L)) \<noteq> p"
    by (metis hd_in_set)
  moreover have "map (\<lambda>i. o_price (the (g i))) q \<noteq> []" "\<forall>x \<in> set (map (\<lambda>i. o_price (the (g i))) q). x = p"
    using Cons.prems(2) by (auto simp: pq queue_ok_def)
  ultimately have "remdups_adj (map (\<lambda>i. o_price (the (g i))) q @ map o_price (orders g L)) =
      p # remdups_adj (map o_price (orders g L))"
    by (intro remdups_adj_run)
  with IH show ?case
    by (simp add: pq o_def)
qed (simp add: orders_def level_idxs_def)

definition at_price :: "Price \<Rightarrow> Order list \<Rightarrow> Order list" where
  "at_price p xs = filter (\<lambda>x. o_price x = p) xs"

lemma at_price_level:
  assumes dist: "distinct (map fst L)" and ok: "\<forall>(p, q) \<in> set L. queue_ok g sd p q" and pq: "(p, q) \<in> set L"
  shows "at_price p (orders g L) = map (\<lambda>i. the (g i)) q"
proof -
  from pq obtain m n where L: "L = m @ (p, q) # n"
    by (meson split_list)
  have "at_price p (orders g k) = []" if "set k \<subseteq> set L" "p \<notin> fst ` set k" for k
  proof -
    have "o_price x \<noteq> p" if "x \<in> set (orders g k)" for x
    proof -
      have "o_price x \<in> fst ` set k"
        by (rule order_price [OF _ that]) (use ok \<open>set k \<subseteq> set L\<close> in blast)
      with \<open>p \<notin> fst ` set k\<close> show ?thesis
        by blast
    qed
    then show ?thesis
      by (simp add: at_price_def filter_empty_conv)
  qed
  then have "at_price p (orders g m) = []" "at_price p (orders g n) = []"
    using dist by (auto simp: L)
  moreover have "at_price p (map (\<lambda>i. the (g i)) q) = map (\<lambda>i. the (g i)) q"
  proof -
    have "queue_ok g sd p q"
      using bspec [OF ok pq] by simp
    then show ?thesis
      by (auto simp: at_price_def queue_ok_def filter_id_conv)
  qed
  ultimately show ?thesis
    by (simp add: L at_price_def)
qed

text \<open>A list of depth levels is right for a side when it lists the best prices, each with its volume.\<close>

definition depth_of :: "nat \<Rightarrow> Order list \<Rightarrow> OrderLevel list \<Rightarrow> bool" where
  "depth_of limit xs ls \<longleftrightarrow>
     map l_price ls = take limit (remdups_adj (map o_price xs)) \<and>
     (\<forall>l \<in> set ls. unat (l_quantity l) = volume (at_price (l_price l) xs))"

lemma collectR_Inr:
  assumes "\<And>x. x \<in> set xs \<Longrightarrow> \<exists>y. f x = Inr y \<and> P x y"
  shows "\<exists>ys. collectR f xs = Inr ys \<and> list_all2 P xs ys"
  using assms
proof (induction xs)
  case (Cons x xs)
  from Cons.prems [of x] obtain y where "f x = Inr y" "P x y"
    by auto
  moreover from Cons obtain ys where "collectR f xs = Inr ys" "list_all2 P xs ys"
    by auto
  ultimately show ?case
    by auto
qed simp

lemma level_quantities:
  assumes "queue_ok g sd p q"
  shows "sum_list (map unat (map (\<lambda>idx. case g idx of Some ord \<Rightarrow> o_quantity ord | None \<Rightarrow> 0) q)) =
    volume (map (\<lambda>i. the (g i)) q)"
proof -
  have "map unat (map (\<lambda>idx. case g idx of Some ord \<Rightarrow> o_quantity ord | None \<Rightarrow> 0) q) =
      map (\<lambda>x. unat (o_quantity x)) (map (\<lambda>i. the (g i)) q)"
    using assms by (auto simp: queue_ok_def)
  then show ?thesis
    by (simp only: volume_def)
qed

lemma lv_ok_prio:
  assumes "lv_ok g sd lv"
  shows "distinct (map fst (prio t lv))" "\<forall>(p, q) \<in> set (prio t lv). q \<noteq> [] \<and> queue_ok g sd p q"
  using assms by (cases t; auto simp: lv_ok_def prio_def rev_map [symmetric] dest: bt_ok_distinct)+

lemma level_depth_exact:
  assumes "queue_ok (slab_get SO st) sd p q"
    and "volume (map (\<lambda>i. the (slab_get SO st i)) q) < 2 ^ 64"
  shows "\<exists>l. level_depth prof SO st (p, q) = Inr l \<and> l_price l = p \<and>
    unat (l_quantity l) = volume (map (\<lambda>i. the (slab_get SO st i)) q)"
proof -
  let ?f = "\<lambda>idx. case slab_get SO st idx of Some ord \<Rightarrow> o_quantity ord | None \<Rightarrow> 0"
  note level_quantities [OF assms(1)]
  with assms(2) sum_u64_exact [of "map ?f q" prof] obtain r where
    "sum_u64 prof (map ?f q) = Inr r" "unat r = volume (map (\<lambda>i. the (slab_get SO st i)) q)"
    by auto
  then show ?thesis
    by (auto simp: level_depth_def)
qed

lemma side_depth:
  assumes ok: "lv_ok (slab_get SO st) sd lv"
    and small: "\<forall>p. volume (at_price p (orders (slab_get SO st) (prio t lv))) < 2 ^ 64"
  shows "\<exists>ls. collectR (level_depth prof SO st) (take limit (prio t lv)) = Inr ls \<and>
    depth_of limit (orders (slab_get SO st) (prio t lv)) ls"
proof -
  let ?L = "prio t lv" and ?g = "slab_get SO st"
  note dist = lv_ok_prio(1) [OF ok, of t] and qs = lv_ok_prio(2) [OF ok, of t]
  then have q: "\<forall>(p, q) \<in> set ?L. queue_ok ?g sd p q"
    by auto
  define P where "P pq l \<longleftrightarrow> l_price l = fst pq \<and> unat (l_quantity l) = volume (at_price (fst pq) (orders ?g ?L))"
    for pq :: "Price \<times> nat list" and l :: OrderLevel
  have "\<exists>l. level_depth prof SO st pq = Inr l \<and> P pq l" if "pq \<in> set (take limit ?L)" for pq
  proof -
    obtain p i where pq: "pq = (p, i)"
      by (cases pq)
    with in_set_takeD [OF that] have mem: "(p, i) \<in> set ?L"
      by simp
    note lev = at_price_level [OF dist q mem]
    have "queue_ok ?g sd p i"
      using q mem by auto
    from level_depth_exact [OF this, of prof] small [rule_format, of p] show ?thesis
      by (auto simp: pq P_def lev)
  qed
  from collectR_Inr [of "take limit ?L" "level_depth prof SO st" P, OF this]
  obtain ls where ls: "collectR (level_depth prof SO st) (take limit ?L) = Inr ls" "list_all2 P (take limit ?L) ls"
    by auto
  have "map l_price ls = map fst (take limit ?L)"
    using ls(2)
    by (induction rule: list_all2_induct) (simp_all add: P_def)
  moreover have "\<forall>l \<in> set ls. unat (l_quantity l) = volume (at_price (l_price l) (orders ?g ?L))"
    using ls(2) by (induction rule: list_all2_induct) (simp_all add: P_def)
  ultimately have "depth_of limit (orders ?g ?L) ls"
    by (simp add: depth_of_def depth_prices [OF dist qs] take_map)
  with ls(1) show ?thesis
    by blast
qed

lemma level_depth_cases: "\<exists>l. level_depth Debug SO st pq = Inr l \<or> level_depth Debug SO st pq = Inl ArithmeticOverflow"
proof -
  have "\<exists>r. sum_u64_from Debug acc xs = Inr r \<or> sum_u64_from Debug acc xs = Inl ArithmeticOverflow" for acc xs
    by (induction xs arbitrary: acc) (auto simp: add_u64_def)
  then show ?thesis
    unfolding level_depth_def sum_u64_def by (metis bindR_simps)
qed

lemma collectR_level_depth:
  "\<exists>ls. collectR (level_depth Debug SO st) L = Inr ls \<or> collectR (level_depth Debug SO st) L = Inl ArithmeticOverflow"
proof (induction L)
  case (Cons pq L)
  then show ?case
    using level_depth_cases [of SO st pq] by auto
qed simp

lemma collectR_overflow:
  assumes "pq \<in> set L" "level_depth Debug SO st pq = Inl ArithmeticOverflow"
  shows "collectR (level_depth Debug SO st) L = Inl ArithmeticOverflow"
  using assms(1)
proof (induction L)
  case (Cons x L)
  show ?case
  proof (cases "x = pq")
    case False
    with Cons level_depth_cases [of SO st x] show ?thesis
      by auto
  qed (use assms(2) in simp)
qed simp

lemma side_depth_overflow:
  assumes ok: "lv_ok (slab_get SO st) sd lv"
    and p: "p \<in> set (take limit (remdups_adj (map o_price (orders (slab_get SO st) (prio t lv)))))"
    and big: "2 ^ 64 \<le> volume (at_price p (orders (slab_get SO st) (prio t lv)))"
  shows "collectR (level_depth Debug SO st) (take limit (prio t lv)) = Inl ArithmeticOverflow"
proof -
  let ?L = "prio t lv" and ?g = "slab_get SO st"
  note L = lv_ok_prio [OF ok, of t]
  have "p \<in> set (map fst (take limit ?L))"
    using p by (simp add: depth_prices [OF L] take_map)
  then obtain q where q: "(p, q) \<in> set (take limit ?L)"
    by auto
  then have mem: "(p, q) \<in> set ?L"
    by (rule in_set_takeD)
  have qok: "\<forall>(p, q) \<in> set ?L. queue_ok ?g sd p q"
    using L(2) by auto
  have "queue_ok ?g sd p q"
    using qok mem by auto
  then have "2 ^ 64 \<le> sum_list (map unat (map (\<lambda>idx. case ?g idx of Some ord \<Rightarrow> o_quantity ord | None \<Rightarrow> 0) q))"
    using big level_quantities [of ?g sd p q] unfolding at_price_level [OF L(1) qok mem] by simp
  from sum_u64_overflow [OF this] have "level_depth Debug SO st (p, q) = Inl ArithmeticOverflow"
    by (simp add: level_depth_def)
  with q show ?thesis
    by (rule collectR_overflow)
qed

section \<open>Properties of the order book\<close>

text \<open>
  C1: from a book of the invariant, placing a limit order never panics, keeps the
  invariant, and changes the book and emits the events exactly as the abstract price-time
  priority book does.
\<close>

theorem place_limit_order_refines:
  assumes "order_slab SO" "book_inv SO b"
  shows "\<exists>b' evs. place_limit_order SO oid uid side price qty b = Inr (b', evs) \<and> book_inv SO b' \<and>
    spec_place oid uid side price qty (abs_of SO b) = (abs_of SO b', evs)"
  using assms by (rule order_slab.place_refines)

lemma vec_order_slab: "order_slab (vec_slab :: (Order, Order slots) slab_ops)" ..

definition sample_book :: "Order slots OrderBook" where
  "sample_book = \<lparr>order_store =
      ([Some \<lparr>o_id = 1, o_user_id = 10, o_price = 100, o_quantity = 5, o_side = Ask, o_timestamp = 0\<rparr>,
        Some \<lparr>o_id = 2, o_user_id = 20, o_price = 100, o_quantity = 4, o_side = Ask, o_timestamp = 0\<rparr>,
        Some \<lparr>o_id = 3, o_user_id = 30, o_price = 90, o_quantity = 8, o_side = Bid, o_timestamp = 0\<rparr>], []),
     bids = [(90, [2])], asks = [(100, [0, 1])],
     order_index = [1 \<mapsto> 0, 2 \<mapsto> 1, 3 \<mapsto> 2], sequence_no = 0\<rparr>"

lemma sample_get: "vec_get (order_store sample_book) =
    [0 \<mapsto> \<lparr>o_id = 1, o_user_id = 10, o_price = 100, o_quantity = 5, o_side = Ask, o_timestamp = 0\<rparr>,
     1 \<mapsto> \<lparr>o_id = 2, o_user_id = 20, o_price = 100, o_quantity = 4, o_side = Ask, o_timestamp = 0\<rparr>,
     2 \<mapsto> \<lparr>o_id = 3, o_user_id = 30, o_price = 90, o_quantity = 8, o_side = Bid, o_timestamp = 0\<rparr>]"
  by (rule ext) (simp add: sample_book_def vec_get_def nth_Cons numeral_eq_Suc split: nat.splits)

lemma sample_book_inv: "book_inv vec_slab sample_book"
  unfolding book_inv_def vec_slab_sel sample_get
  by (auto simp: sample_book_def lv_ok_def queue_ok_def bt_ok_def level_idxs_def)

lemma sample_place:
  "map_sum id snd (place_limit_order vec_slab 4 40 Bid 100 7 sample_book) =
     Inr [TradeExecuted 1 4 100 5, TradeExecuted 2 4 100 2]"
  by code_simp

theorem place_limit_order_refines_witness:
  "\<exists>b' evs. place_limit_order vec_slab 4 40 Bid 100 7 sample_book = Inr (b', evs) \<and> book_inv vec_slab b' \<and>
     spec_place 4 40 Bid 100 7 (abs_of vec_slab sample_book) = (abs_of vec_slab b', evs)"
  by (rule place_limit_order_refines [OF vec_order_slab sample_book_inv])

lemma spec_match_rested: "spec_match oid uid side price qty xs = (qty', rest, evs) \<Longrightarrow> rested evs = 0"
  by (induction oid uid side price qty xs arbitrary: qty' rest evs rule: spec_match.induct)
     (auto split: if_splits prod.splits)

lemma spec_place_match:
  assumes "spec_place oid uid side price qty A = (A', evs)"
  obtains qty' rest evs0 where "spec_match oid uid side price qty (a_opposite side A) = (qty', rest, evs0)"
    and "a_opposite side A' = rest"
    and "evs = evs0 @ (if qty' > 0 then [OrderPlaced oid uid price qty' side] else [])"
proof -
  obtain qty' rest evs0 where "spec_match oid uid side price qty (a_opposite side A) = (qty', rest, evs0)"
    by (metis prod_cases3)
  with assms that show thesis
    by (cases side) (auto simp: spec_place_def a_opposite_def Let_def split: if_splits)
qed

context order_slab
begin

lemma place_match:
  assumes inv: "book_inv SO b" and run: "place_limit_order SO oid uid side price qty b = Inr (b', evs)"
  obtains qty' evs0 where "spec_match oid uid side price qty (a_opposite side (abs_of SO b)) =
      (qty', a_opposite side (abs_of SO b'), evs0)"
    and "evs = evs0 @ (if qty' > 0 then [OrderPlaced oid uid price qty' side] else [])"
proof -
  from place_refines [OF inv, of oid uid side price qty] run
  have "spec_place oid uid side price qty (abs_of SO b) = (abs_of SO b', evs)"
    by auto
  then show thesis
    using that by (rule spec_place_match) simp
qed

lemma place_conserves:
  assumes inv: "book_inv SO b" and run: "place_limit_order SO oid uid side price qty b = Inr (b', evs)"
  shows "traded evs + rested evs = unat qty"
    and "volume_of_others uid (a_opposite side (abs_of SO b)) =
      volume_of_others uid (a_opposite side (abs_of SO b')) + traded evs"
proof -
  obtain qty' evs0 where sm: "spec_match oid uid side price qty (a_opposite side (abs_of SO b)) =
      (qty', a_opposite side (abs_of SO b'), evs0)"
    and evs: "evs = evs0 @ (if qty' > 0 then [OrderPlaced oid uid price qty' side] else [])"
    using place_match [OF assms] by blast
  have "rested evs0 = 0"
    using sm by (rule spec_match_rested)
  with spec_match_conserves [OF sm] spec_match_volume [OF sm]
  show "traded evs + rested evs = unat qty"
    and "volume_of_others uid (a_opposite side (abs_of SO b)) =
      volume_of_others uid (a_opposite side (abs_of SO b')) + traded evs"
    by (auto simp: evs word_gt_0)
qed

lemma place_events:
  assumes inv: "book_inv SO b" and run: "place_limit_order SO oid uid side price qty b = Inr (b', evs)" and "ev \<in> set evs"
  shows "fair_trade oid uid side price (a_opposite side (abs_of SO b)) ev \<or>
    (\<exists>q. ev = OrderPlaced oid uid price q side \<and> 0 < q \<and> q \<le> qty)"
proof -
  obtain qty' evs0 where sm: "spec_match oid uid side price qty (a_opposite side (abs_of SO b)) =
      (qty', a_opposite side (abs_of SO b'), evs0)"
    and evs: "evs = evs0 @ (if qty' > 0 then [OrderPlaced oid uid price qty' side] else [])"
    using place_match [OF inv run] by blast
  have pos: "\<forall>x \<in> set (a_opposite side (abs_of SO b)). 0 < o_quantity x"
    using side_orders(1) [OF inv] by (simp add: a_opposite_side)
  have "qty' \<le> qty"
    using spec_match_conserves [OF sm] by (simp add: word_le_nat_alt)
  with assms(3) spec_match_fair [OF sm pos] show ?thesis
    by (auto simp: evs split: if_splits)
qed

end

text \<open>
  C18: placing conserves quantity: what the incoming order asked for is what was traded
  plus what came to rest, and the volume other users have on the opposite side falls by
  exactly the traded quantity.
\<close>

theorem place_limit_order_conserves:
  assumes "order_slab SO" "book_inv SO b" "place_limit_order SO oid uid side price qty b = Inr (b', evs)"
  shows "traded evs + rested evs = unat qty \<and>
    volume_of_others uid (a_opposite side (abs_of SO b)) =
      volume_of_others uid (a_opposite side (abs_of SO b')) + traded evs"
  using order_slab.place_conserves [OF assms] by blast

lemma sample_place_run:
  obtains b' where "place_limit_order vec_slab 4 40 Bid 100 7 sample_book =
    Inr (b', [TradeExecuted 1 4 100 5, TradeExecuted 2 4 100 2])"
  using sample_place by (cases "place_limit_order vec_slab 4 40 Bid 100 7 sample_book") auto

theorem place_limit_order_conserves_witness:
  "\<exists>b' evs. place_limit_order vec_slab 4 40 Bid 100 7 sample_book = Inr (b', evs) \<and>
     traded evs + rested evs = 7 \<and>
     volume_of_others 40 (a_asks (abs_of vec_slab sample_book)) =
       volume_of_others 40 (a_asks (abs_of vec_slab b')) + 7"
proof -
  obtain b' where run: "place_limit_order vec_slab 4 40 Bid 100 7 sample_book =
    Inr (b', [TradeExecuted 1 4 100 5, TradeExecuted 2 4 100 2])"
    by (rule sample_place_run)
  with place_limit_order_conserves [OF vec_order_slab sample_book_inv run] show ?thesis
    by (auto simp: a_opposite_def)
qed

text \<open>
  C19: every trade a placement reports is for a positive quantity at the price of a
  resting order of another user, within the limit of the taker, for no more than that
  order offers; and only orders of the taker's own user are cancelled on the way.
\<close>

theorem place_limit_order_fair:
  assumes "order_slab SO" "book_inv SO b" "place_limit_order SO oid uid side price qty b = Inr (b', evs)"
    and "ev \<in> set evs"
  shows "fair_trade oid uid side price (a_opposite side (abs_of SO b)) ev \<or>
    (\<exists>q. ev = OrderPlaced oid uid price q side \<and> 0 < q \<and> q \<le> qty)"
  using assms by (rule order_slab.place_events)

theorem place_limit_order_fair_witness:
  "fair_trade 4 40 Bid 100 (a_asks (abs_of vec_slab sample_book)) (TradeExecuted 2 4 100 2)"
proof -
  obtain b' where run: "place_limit_order vec_slab 4 40 Bid 100 7 sample_book =
    Inr (b', [TradeExecuted 1 4 100 5, TradeExecuted 2 4 100 2])"
    by (rule sample_place_run)
  from place_limit_order_fair [OF vec_order_slab sample_book_inv run, of "TradeExecuted 2 4 100 2"] show ?thesis
    by (simp add: a_opposite_def)
qed

text \<open>
  C17: replaying any log of placements and cancellations on a new book never panics,
  and the book it gives has both sides in price order and is not crossed: every bid is
  below every ask.
\<close>

theorem replay_safe:
  assumes "order_slab SO"
  shows "\<exists>b. replay SO entries (new_book SO) = Inr b \<and> book_inv SO b \<and>
    sorted_wrt (\<lambda>x y. o_price x \<ge> o_price y) (a_bids (abs_of SO b)) \<and>
    sorted_wrt (\<lambda>x y. o_price x \<le> o_price y) (a_asks (abs_of SO b)) \<and>
    (\<forall>x \<in> set (a_bids (abs_of SO b)). \<forall>y \<in> set (a_asks (abs_of SO b)). o_price x < o_price y)"
proof -
  obtain b where b: "replay SO entries (new_book SO) = Inr b" "book_inv SO b"
    using order_slab.replay_inv [OF assms] by blast
  with side_sorted [OF book_inv_side [OF b(2)], of Bid] side_sorted [OF book_inv_side [OF b(2)], of Ask]
    book_uncrossed [OF b(2)] show ?thesis
    by (auto simp: abs_of_def at_least_as_good_def)
qed

theorem replay_safe_witness:
  "\<exists>b. replay vec_slab [Place 1 10 Ask 100 5, Place 2 20 Bid 120 8, Cancel 2 20, Place 3 30 Bid 90 1]
       (new_book vec_slab) = Inr b \<and> book_inv vec_slab b \<and>
     (\<forall>x \<in> set (a_bids (abs_of vec_slab b)). \<forall>y \<in> set (a_asks (abs_of vec_slab b)). o_price x < o_price y)"
  using replay_safe [OF vec_order_slab,
      of "[Place 1 10 Ask 100 5, Place 2 20 Bid 120 8, Cancel 2 20, Place 3 30 Bid 90 1]"]
  by blast

text \<open>The abstract book \<open>A'\<close> is \<open>A\<close> with one occurrence of a resting order taken out.\<close>

definition removed_from :: "Order \<Rightarrow> abs_book \<Rightarrow> abs_book \<Rightarrow> bool" where
  "removed_from ord A A' \<longleftrightarrow>
     a_side (opposite (o_side ord)) A' = a_side (opposite (o_side ord)) A \<and>
     (\<exists>xs ys. a_side (o_side ord) A = xs @ ord # ys \<and> a_side (o_side ord) A' = xs @ ys)"

context order_slab
begin

lemma cancel_removes:
  assumes "book_inv SO b" "cancel_target SO oid uid b = Some (idx, ord)"
  shows "\<exists>b'. cancel_order SO oid uid b = Inr (b', [OrderCancelled oid]) \<and> book_inv SO b' \<and>
    removed_from ord (abs_of SO b) (abs_of SO b')"
  using cancel_refines [OF assms] unfolding removed_from_def by metis

end

text \<open>
  C22: a cancellation never panics and keeps the invariant.  When the index names a slot
  that holds an order of the caller, exactly that order is taken off the book and one
  cancellation is reported; in every other case the book is untouched and nothing is
  reported, so no user can cancel an order of another.
\<close>

theorem cancel_order_effect:
  assumes "order_slab SO" "book_inv SO b"
  shows "case cancel_target SO oid uid b of
      None \<Rightarrow> cancel_order SO oid uid b = Inr (b, [])
    | Some (idx, ord) \<Rightarrow> o_user_id ord = uid \<and>
        (\<exists>b'. cancel_order SO oid uid b = Inr (b', [OrderCancelled oid]) \<and> book_inv SO b' \<and>
          removed_from ord (abs_of SO b) (abs_of SO b'))"
  using order_slab.cancel_removes [OF assms] cancel_no_target [of SO oid uid b] cancel_targetD [of SO oid uid b]
  by (fastforce split: option.splits)

lemma sample_target:
  "cancel_target vec_slab 2 20 sample_book =
     Some (1, \<lparr>o_id = 2, o_user_id = 20, o_price = 100, o_quantity = 4, o_side = Ask, o_timestamp = 0\<rparr>)"
  "cancel_target vec_slab 2 10 sample_book = None"
  unfolding cancel_target_def vec_slab_sel sample_get by (simp_all add: sample_book_def)

theorem cancel_order_effect_witness:
  "cancel_order vec_slab 2 10 sample_book = Inr (sample_book, []) \<and>
   (\<exists>b'. cancel_order vec_slab 2 20 sample_book = Inr (b', [OrderCancelled 2]) \<and> book_inv vec_slab b')"
  using cancel_order_effect [OF vec_order_slab sample_book_inv, of 2 10]
    cancel_order_effect [OF vec_order_slab sample_book_inv, of 2 20]
  unfolding sample_target by auto

text \<open>
  C21: when every id was placed at most once, the owner of a resting order can always
  cancel it by its id, and exactly that order leaves the book.
\<close>

theorem owner_can_cancel:
  assumes "order_slab SO" "distinct (place_ids entries)" "replay SO entries (new_book SO) = Inr b"
    and "ord \<in> set (a_side sd (abs_of SO b))"
  shows "\<exists>b'. cancel_order SO (o_id ord) (o_user_id ord) b = Inr (b', [OrderCancelled (o_id ord)]) \<and>
    book_inv SO b' \<and> removed_from ord (abs_of SO b) (abs_of SO b')"
proof -
  have inv: "book_inv SO b"
    using order_slab.replay_inv [OF assms(1), of entries] assms(3) by auto
  have "index_complete SO b"
    by (rule order_slab.replay_index [OF assms(1) _ _ assms(2,3)])
       (simp_all add: order_slab.new_book_index [OF assms(1)])
  moreover obtain i where "slab_get SO (order_store b) i = Some ord"
    using side_orders(4) [OF inv assms(4)] by blast
  ultimately have "cancel_target SO (o_id ord) (o_user_id ord) b = Some (i, ord)"
    by (simp add: index_complete_def cancel_target_def)
  with order_slab.cancel_removes [OF assms(1) inv] show ?thesis
    by blast
qed

definition sample_log :: "LogEntry list" where
  "sample_log = [Place 1 10 Ask 100 5, Place 2 20 Bid 120 8]"

lemma sample_log_run:
  "map_sum id (\<lambda>b. (a_bids (abs_of vec_slab b), a_asks (abs_of vec_slab b))) (replay vec_slab sample_log (new_book vec_slab)) =
     Inr ([\<lparr>o_id = 2, o_user_id = 20, o_price = 120, o_quantity = 3, o_side = Bid, o_timestamp = 0\<rparr>], [])"
  by code_simp

theorem owner_can_cancel_witness:
  "\<exists>b b'. replay vec_slab sample_log (new_book vec_slab) = Inr b \<and>
     cancel_order vec_slab 2 20 b = Inr (b', [OrderCancelled 2]) \<and> book_inv vec_slab b'"
proof -
  let ?ord = "\<lparr>o_id = 2, o_user_id = 20, o_price = 120, o_quantity = 3, o_side = Bid, o_timestamp = 0\<rparr>"
  obtain b where b: "replay vec_slab sample_log (new_book vec_slab) = Inr b" "a_bids (abs_of vec_slab b) = [?ord]"
    using sample_log_run by (cases "replay vec_slab sample_log (new_book vec_slab)") auto
  have "distinct (place_ids sample_log)"
    by (simp add: sample_log_def)
  from owner_can_cancel [OF vec_order_slab this b(1), of ?ord Bid] b show ?thesis
    by (auto simp: a_side_def)
qed

text \<open>The three placements of the next property, step by step, and the cancellation.\<close>

context order_slab
begin

lemma place_on_empty:
  assumes "bids b = []" "asks b = []" "0 < q"
  obtains idx st where
    "slab_insert SO \<lparr>o_id = i, o_user_id = u, o_price = p, o_quantity = q, o_side = Ask, o_timestamp = 0\<rparr> (order_store b) = (idx, st)"
    "place_limit_order SO i u Ask p q b =
       Inr (b\<lparr>order_store := st, order_index := (order_index b)(i \<mapsto> idx), asks := [(p, [idx])]\<rparr>, [OrderPlaced i u p q Ask])"
proof -
  obtain idx st where "slab_insert SO \<lparr>o_id = i, o_user_id = u, o_price = p, o_quantity = q, o_side = Ask, o_timestamp = 0\<rparr>
      (order_store b) = (idx, st)"
    by fastforce
  with that assms show thesis
    by (simp add: place_limit_order_def match_loop.simps opposite_levels_def set_opposite_levels_def best_level_def bt_last_def
        place_maker_def push_level_def bt_get_def)
qed

lemma fill_only_ask:
  assumes "bids b = []" "asks b = [(p, [idx])]" "slab_get SO (order_store b) idx = Some mk" "o_quantity mk = q" "o_user_id mk \<noteq> v" "0 < q"
  obtains mk' st' st where "slab_remove SO idx st' = Inr (mk', st)"
    "place_limit_order SO j v Bid p q b = Inr (b\<lparr>order_store := st, asks := []\<rparr>, [TradeExecuted (o_id mk) j p q])"
proof -
  let ?st = "slab_set SO idx (mk\<lparr>o_quantity := 0\<rparr>) (order_store b)"
  have "slab_get SO ?st idx = Some (mk\<lparr>o_quantity := 0\<rparr>)"
    using get_set [OF assms(3)] by simp
  then obtain st where st: "slab_remove SO idx ?st = Inr (mk\<lparr>o_quantity := 0\<rparr>, st)"
    by (rule remove_occupiedE)
  have "place_limit_order SO j v Bid p q b = Inr (b\<lparr>order_store := st, asks := []\<rparr>, [TradeExecuted (o_id mk) j p q])"
    using assms st
    by (simp add: place_limit_order_def match_loop.simps match_level.simps(2) opposite_levels_def set_opposite_levels_def best_level_def
        bt_first_def is_matchable_def write_level_def bt_remove_def Let_def)
  with that st show thesis
    by blast
qed

lemma cancel_only_ask:
  assumes "asks b = [(p, [idx])]" "order_index b i = Some idx" "slab_get SO (order_store b) idx = Some ord"
    "o_user_id ord = u" "o_side ord = Ask" "o_price ord = p"
  obtains b' where "cancel_order SO i u b = Inr (b', [OrderCancelled i])" "asks b' = []" "bids b' = bids b"
proof -
  obtain st where "slab_remove SO idx (order_store b) = Inr (ord, st)"
    using remove_occupiedE [OF assms(3)] .
  with that assms show thesis
    by (simp add: cancel_order_def retain_level_def bt_get_def write_level_def bt_remove_def Let_def)
qed

lemma stale_cancel:
  assumes reuse: "\<And>k s x s' w. slab_remove SO k s = Inr (x, s') \<Longrightarrow> fst (slab_insert SO w s') = k"
    and "u \<noteq> v" "i \<noteq> k" "0 < q" "0 < q'"
  shows "\<exists>b b'. replay SO [Place i u Ask p q, Place j v Bid p q, Place k u Ask p' q'] (new_book SO) = Inr b \<and>
    map o_id (a_asks (abs_of SO b)) = [k] \<and>
    cancel_order SO i u b = Inr (b', [OrderCancelled i]) \<and> a_asks (abs_of SO b') = []"
proof -
  let ?mk = "\<lparr>o_id = i, o_user_id = u, o_price = p, o_quantity = q, o_side = Ask, o_timestamp = 0\<rparr>"
  let ?ord = "\<lparr>o_id = k, o_user_id = u, o_price = p', o_quantity = q', o_side = Ask, o_timestamp = 0\<rparr>"
  define b0 where "b0 = new_book SO"
  have b0: "bids b0 = []" "asks b0 = []"
    by (simp_all add: b0_def new_book_def)
  obtain idx st1 where one: "slab_insert SO ?mk (order_store b0) = (idx, st1)" "place_limit_order SO i u Ask p q b0 =
      Inr (b0\<lparr>order_store := st1, order_index := (order_index b0)(i \<mapsto> idx), asks := [(p, [idx])]\<rparr>, [OrderPlaced i u p q Ask])"
    by (rule place_on_empty [OF b0 assms(4)])
  define b1 where "b1 = b0\<lparr>order_store := st1, order_index := (order_index b0)(i \<mapsto> idx), asks := [(p, [idx])]\<rparr>"
  have b1: "bids b1 = []" "asks b1 = [(p, [idx])]" "slab_get SO (order_store b1) idx = Some ?mk"
    using b0 get_insert [OF one(1)] by (simp_all add: b1_def)
  obtain mk' st' st2 where two: "slab_remove SO idx st' = Inr (mk', st2)"
    "place_limit_order SO j v Bid p q b1 = Inr (b1\<lparr>order_store := st2, asks := []\<rparr>, [TradeExecuted (o_id ?mk) j p q])"
    by (rule fill_only_ask [OF b1, of q v j]) (use assms(2,4) in simp_all)
  define b2 where "b2 = b1\<lparr>order_store := st2, asks := []\<rparr>"
  have b2: "bids b2 = []" "asks b2 = []" "order_index b2 i = Some idx"
    using b1 by (simp_all add: b2_def b1_def)
  obtain idx' st3 where three: "slab_insert SO ?ord (order_store b2) = (idx', st3)" "place_limit_order SO k u Ask p' q' b2 =
      Inr (b2\<lparr>order_store := st3, order_index := (order_index b2)(k \<mapsto> idx'), asks := [(p', [idx'])]\<rparr>, [OrderPlaced k u p' q' Ask])"
    by (rule place_on_empty [OF b2(1,2) assms(5)])
  define b3 where "b3 = b2\<lparr>order_store := st3, order_index := (order_index b2)(k \<mapsto> idx'), asks := [(p', [idx'])]\<rparr>"
  have "idx' = idx"
    using reuse [OF two(1), of ?ord] three(1) by (simp add: b2_def)
  then have b3: "asks b3 = [(p', [idx])]" "order_index b3 i = Some idx" "slab_get SO (order_store b3) idx = Some ?ord"
    using b2(3) assms(3) get_insert [OF three(1)] by (simp_all add: b3_def)
  obtain b' where b': "cancel_order SO i u b3 = Inr (b', [OrderCancelled i])" "asks b' = []"
    by (rule cancel_only_ask [OF b3]) simp_all
  have "replay SO [Place i u Ask p q, Place j v Bid p q, Place k u Ask p' q'] b0 = Inr b3"
    using one(2) two(2) three(2) by (simp add: replay_def b1_def [symmetric] b2_def [symmetric] b3_def [symmetric])
  moreover have "map o_id (a_asks (abs_of SO b3)) = [k]" "a_asks (abs_of SO b') = []"
    using b3 b'(2) by (simp_all add: abs_of_def orders_def prio_def)
  ultimately show ?thesis
    using b'(1) unfolding b0_def by (intro exI [of _ b3] exI [of _ b'] conjI)
qed

end



text \<open>
  C23: as long as no price level holds 2^64 or more, the depth query succeeds in every
  build profile and lists, for each side, the best prices in order, at most the given
  number of them, each with the exact volume resting at it.
\<close>

theorem get_depth_exact:
  assumes "book_inv SO b"
    and "\<forall>p. volume (at_price p (a_asks (abs_of SO b))) < 2 ^ 64 \<and> volume (at_price p (a_bids (abs_of SO b))) < 2 ^ 64"
  shows "\<exists>as bs. get_depth prof SO limit b = Inr (as, bs) \<and>
    depth_of limit (a_asks (abs_of SO b)) as \<and> depth_of limit (a_bids (abs_of SO b)) bs"
proof -
  have ok: "lv_ok (slab_get SO (order_store b)) Bid (bids b)" "lv_ok (slab_get SO (order_store b)) Ask (asks b)"
    using assms(1) by (simp_all add: book_inv_def)
  obtain as where "collectR (level_depth prof SO (order_store b)) (take limit (prio Bid (asks b))) = Inr as"
    "depth_of limit (a_asks (abs_of SO b)) as"
    using side_depth [OF ok(2), of Bid prof limit] assms(2) by (auto simp: abs_of_def)
  moreover obtain bs where "collectR (level_depth prof SO (order_store b)) (take limit (prio Ask (bids b))) = Inr bs"
    "depth_of limit (a_bids (abs_of SO b)) bs"
    using side_depth [OF ok(1), of Ask prof limit] assms(2) by (auto simp: abs_of_def)
  ultimately show ?thesis
    by (auto simp: get_depth_def prio_def)
qed

lemma sample_sides:
  "a_asks (abs_of vec_slab sample_book) =
     [\<lparr>o_id = 1, o_user_id = 10, o_price = 100, o_quantity = 5, o_side = Ask, o_timestamp = 0\<rparr>,
      \<lparr>o_id = 2, o_user_id = 20, o_price = 100, o_quantity = 4, o_side = Ask, o_timestamp = 0\<rparr>]"
  "a_bids (abs_of vec_slab sample_book) =
     [\<lparr>o_id = 3, o_user_id = 30, o_price = 90, o_quantity = 8, o_side = Bid, o_timestamp = 0\<rparr>]"
  by code_simp+

theorem get_depth_exact_witness:
  "\<exists>as bs. get_depth Debug vec_slab 10 sample_book = Inr (as, bs) \<and>
     depth_of 10 (a_asks (abs_of vec_slab sample_book)) as \<and> depth_of 10 (a_bids (abs_of vec_slab sample_book)) bs"
  by (rule get_depth_exact [OF sample_book_inv]) (simp add: sample_sides at_price_def)

text \<open>
  A debug build panics with an arithmetic overflow on the depth query when the
  quantities at one of the listed prices, of either side, add up to 2^64 or more.
\<close>

lemma get_depth_overflow:
  assumes inv: "book_inv SO b" and p: "p \<in> set (take limit (remdups_adj (map o_price (a_side sd (abs_of SO b)))))"
    and big: "2 ^ 64 \<le> volume (at_price p (a_side sd (abs_of SO b)))"
  shows "get_depth Debug SO limit b = Inl ArithmeticOverflow"
proof -
  have "collectR (level_depth Debug SO (order_store b)) (take limit (prio (opposite sd) (side_levels sd b))) =
      Inl ArithmeticOverflow"
    using side_depth_overflow [OF book_inv_side [OF inv]] p big by (simp add: a_side_abs)
  then show ?thesis
    using collectR_level_depth [of SO "order_store b" "take limit (asks b)"]
    by (cases sd) (auto simp: get_depth_def prio_def)
qed

definition heavy_book :: "Order slots OrderBook" where
  "heavy_book = \<lparr>order_store =
      ([Some \<lparr>o_id = 1, o_user_id = 10, o_price = 100, o_quantity = 18446744073709551615, o_side = Bid, o_timestamp = 0\<rparr>,
        Some \<lparr>o_id = 2, o_user_id = 20, o_price = 100, o_quantity = 1, o_side = Bid, o_timestamp = 0\<rparr>], []),
     bids = [(100, [0, 1])], asks = [], order_index = [1 \<mapsto> 0, 2 \<mapsto> 1], sequence_no = 0\<rparr>"

lemma heavy_book_inv: "book_inv vec_slab heavy_book"
proof -
  have g: "vec_get (order_store heavy_book) =
    [0 \<mapsto> \<lparr>o_id = 1, o_user_id = 10, o_price = 100, o_quantity = 18446744073709551615, o_side = Bid, o_timestamp = 0\<rparr>,
     1 \<mapsto> \<lparr>o_id = 2, o_user_id = 20, o_price = 100, o_quantity = 1, o_side = Bid, o_timestamp = 0\<rparr>]"
    by (rule ext) (simp add: heavy_book_def vec_get_def nth_Cons numeral_eq_Suc split: nat.splits)
  show ?thesis
    unfolding book_inv_def vec_slab_sel g
    by (auto simp: heavy_book_def lv_ok_def queue_ok_def bt_ok_def level_idxs_def word_gt_0)
qed

lemma heavy_bids: "a_side Bid (abs_of vec_slab heavy_book) =
    [\<lparr>o_id = 1, o_user_id = 10, o_price = 100, o_quantity = 18446744073709551615, o_side = Bid, o_timestamp = 0\<rparr>,
     \<lparr>o_id = 2, o_user_id = 20, o_price = 100, o_quantity = 1, o_side = Bid, o_timestamp = 0\<rparr>]"
  by code_simp

lemma heavy_depth_overflows: "get_depth Debug vec_slab 5 heavy_book = Inl ArithmeticOverflow"
  by (rule get_depth_overflow [OF heavy_book_inv, where p = 100 and sd = Bid])
     (simp_all add: heavy_bids at_price_def)

text \<open>A release build answers every depth query.\<close>

lemma sum_u64_release: "\<exists>r. sum_u64 Release xs = Inr r"
proof -
  have "\<exists>r. sum_u64_from Release acc xs = Inr r" for acc
    by (induction xs arbitrary: acc) (simp_all add: add_u64_release)
  then show ?thesis
    by (simp add: sum_u64_def)
qed

lemma get_depth_release: "\<exists>d. get_depth Release SO limit b = Inr d"
proof -
  have "\<exists>ls. collectR (level_depth Release SO st) L = Inr ls" for st L
  proof (induction L)
    case (Cons pq L)
    obtain r where "level_depth Release SO st pq = Inr r"
      unfolding level_depth_def using sum_u64_release by (metis bindR_simps(1))
    with Cons show ?case
      by auto
  qed simp
  then show ?thesis
    unfolding get_depth_def by (metis bindR_simps(1))
qed

end
