(* ===== verification/Wal.thy ===== *)
theory Wal
  imports Order_Book "HOL-Library.Sublist"
begin

text \<open>
  The write-ahead log of \<^verbatim>\<open>zkapp/engine/src/wal.rs\<close>.  The log file is a byte list, the
  \<^verbatim>\<open>BufWriter\<close> around it a byte buffer of 8 KiB, and each attempt to write to the file takes
  as an argument how many bytes the operating system accepts.  A crash is one of the process: the
  file keeps what was accepted and the buffer is lost.  (\<^verbatim>\<open>flush\<close> does not sync the file, so what a power
  failure leaves is not covered.)  The encoder and the decoder of \<^verbatim>\<open>bincode\<close> are arguments; the
  locale \<open>log_codec\<close> names what the log relies on.
\<close>

section \<open>The writer\<close>

record WalHandler =
  wal_file :: bytes
  wal_buf :: bytes

definition buf_capacity :: nat where
  "buf_capacity = 8192"

definition wal_open :: "bytes option \<Rightarrow> WalHandler" where
  "wal_open f = \<lparr>wal_file = (case f of None \<Rightarrow> [] | Some bs \<Rightarrow> bs), wal_buf = []\<rparr>"

text \<open>
  \<^verbatim>\<open>BufWriter::flush_buf\<close> when the file accepts \<open>n\<close> bytes before it fails: what was accepted
  leaves the buffer even when the call returns an error.
\<close>

definition flush_buf :: "nat \<Rightarrow> WalHandler \<Rightarrow> bool \<times> WalHandler" where
  "flush_buf n w =
     (length (wal_buf w) \<le> n,
      w\<lparr>wal_file := wal_file w @ take n (wal_buf w), wal_buf := drop n (wal_buf w)\<rparr>)"

text \<open>
  \<^verbatim>\<open>BufWriter::write_all\<close> of one chunk: into the buffer when it fits, after a flush when it
  does not, straight into the file when the chunk is as large as the buffer.
\<close>

definition buf_write_all :: "nat \<times> nat \<Rightarrow> bytes \<Rightarrow> WalHandler \<Rightarrow> bool \<times> WalHandler" where
  "buf_write_all io c w =
     (let (ok, w') = (if length c > buf_capacity - length (wal_buf w) then flush_buf (fst io) w else (True, w))
      in if \<not> ok then (False, w')
         else if length c \<ge> buf_capacity
         then (length c \<le> snd io, w'\<lparr>wal_file := wal_file w' @ take (snd io) c\<rparr>)
         else (True, w'\<lparr>wal_buf := wal_buf w' @ c\<rparr>))"

fun write_chunks :: "(nat \<Rightarrow> nat \<times> nat) \<Rightarrow> nat \<Rightarrow> bytes list \<Rightarrow> WalHandler \<Rightarrow> bool \<times> WalHandler" where
  "write_chunks io i [] w = (True, w)"
| "write_chunks io i (c # cs) w =
     (case buf_write_all (io i) c w of
        (False, w') \<Rightarrow> (False, w')
      | (True, w') \<Rightarrow> write_chunks io (Suc i) cs w')"

datatype wal_status = WalOk | EncodeFailed | FlushFailed

text \<open>
  \<^verbatim>\<open>encode_into_std_write\<close> issues the writes \<open>encw e\<close>; the first failing one ends the call.
  Otherwise the buffer is flushed.
\<close>

definition write_entry ::
  "(LogEntry \<Rightarrow> bytes list) \<Rightarrow> (nat \<Rightarrow> nat \<times> nat) \<Rightarrow> LogEntry \<Rightarrow> WalHandler \<Rightarrow> wal_status \<times> WalHandler" where
  "write_entry encw io e w =
     (case write_chunks io 0 (encw e) w of
        (False, w') \<Rightarrow> (EncodeFailed, w')
      | (True, w') \<Rightarrow>
          (case flush_buf (fst (io (length (encw e)))) w' of
             (ok, w'') \<Rightarrow> (if ok then WalOk else FlushFailed, w'')))"

definition entry_bytes :: "(LogEntry \<Rightarrow> bytes list) \<Rightarrow> LogEntry \<Rightarrow> bytes" where
  "entry_bytes encw e = concat (encw e)"

text \<open>A sequence of writes, each with what the file accepts during it.\<close>

fun write_entries ::
  "(LogEntry \<Rightarrow> bytes list) \<Rightarrow> ((nat \<Rightarrow> nat \<times> nat) \<times> LogEntry) list \<Rightarrow> WalHandler \<Rightarrow> wal_status list \<times> WalHandler" where
  "write_entries encw [] w = ([], w)"
| "write_entries encw ((io, e) # es) w =
     (case write_entry encw io e w of
        (st, w') \<Rightarrow> (case write_entries encw es w' of (sts, w'') \<Rightarrow> (st # sts, w'')))"

section \<open>The reader\<close>

text \<open>
  The loop of \<^verbatim>\<open>read_all\<close>: decode from the front until the decoder reports an error.  A
  decoder that consumes nothing would keep it running, so not returning is \<open>None\<close>.
\<close>

partial_function (option) read_loop ::
  "(bytes \<Rightarrow> (LogEntry \<times> bytes) option) \<Rightarrow> bytes \<Rightarrow> LogEntry list \<Rightarrow> LogEntry list option" where
  [code]: "read_loop dec bs acc =
     (case dec bs of
        None \<Rightarrow> Some acc
      | Some (e, rest) \<Rightarrow> read_loop dec rest (acc @ [e]))"

definition read_all ::
  "(bytes \<Rightarrow> (LogEntry \<times> bytes) option) \<Rightarrow> bytes option \<Rightarrow> LogEntry list option" where
  "read_all dec f = (case f of None \<Rightarrow> Some [] | Some bs \<Rightarrow> read_loop dec bs [])"

text \<open>
  What a file holds for the decoder: the entries at its front, and the end at which decoding stops.
  The end is empty when the file stops after an entry; otherwise it is torn.
\<close>

inductive reads :: "(bytes \<Rightarrow> (LogEntry \<times> bytes) option) \<Rightarrow> bytes \<Rightarrow> LogEntry list \<Rightarrow> bytes \<Rightarrow> bool"
  for dec where
  stop: "dec bs = None \<Longrightarrow> reads dec bs [] bs"
| entry: "dec bs = Some (e, rest) \<Longrightarrow> reads dec rest es tail \<Longrightarrow> reads dec bs (e # es) tail"

lemma reads_loop: "reads dec bs es tail \<Longrightarrow> read_loop dec bs acc = Some (acc @ es)"
  by (induction arbitrary: acc rule: reads.induct) (subst read_loop.simps, simp)+

lemma reads_all: "reads dec bs es tail \<Longrightarrow> read_all dec (Some bs) = Some es"
  by (simp add: read_all_def reads_loop)

lemma reads_end: "reads dec bs es tail \<Longrightarrow> dec tail = None"
  by (induction rule: reads.induct) auto

lemma reads_fun: "reads dec bs es tail \<Longrightarrow> reads dec bs es' tail' \<Longrightarrow> es' = es \<and> tail' = tail"
  by (induction arbitrary: es' rule: reads.induct) (auto elim: reads.cases)

section \<open>What the log relies on\<close>

text \<open>
  The decoder inverts the encoder and leaves the bytes that follow, reports an error at the
  end of the input and on a truncated entry, consumes input when it succeeds, and reads no further
  than the entry it returns.
\<close>

locale log_codec =
  fixes encw :: "LogEntry \<Rightarrow> bytes list" and dec :: "bytes \<Rightarrow> (LogEntry \<times> bytes) option"
  assumes dec_enc: "dec (concat (encw e) @ rest) = Some (e, rest)"
    and dec_truncated: "n < length (concat (encw e)) \<Longrightarrow> dec (take n (concat (encw e))) = None"
    and dec_consumes: "dec bs = Some (e, rest) \<Longrightarrow> length rest < length bs"
    and dec_stream: "dec bs = Some (e, rest) \<Longrightarrow> dec (bs @ added) = Some (e, rest @ added)"
begin

lemma dec_Nil: "dec [] = None"
  using dec_consumes [of "[]"] by (cases "dec []") auto

lemma reads_Nil: "reads dec [] [] []"
  using dec_Nil by (rule reads.stop)

text \<open>Every file is read to its end.\<close>

lemma reads_total: "\<exists>es tail. reads dec bs es tail"
proof (induction "length bs" arbitrary: bs rule: less_induct)
  case less
  show ?case
  proof (cases "dec bs")
    case None
    then show ?thesis
      by (blast intro: reads.stop)
  next
    case (Some er)
    obtain e rest where "er = (e, rest)"
      by fastforce
    with Some have "dec bs = Some (e, rest)"
      by simp
    with less dec_consumes [OF this] show ?thesis
      by (blast intro: reads.entry)
  qed
qed

text \<open>What is appended to a file is decoded from its torn end on.\<close>

lemma reads_append:
  assumes "reads dec bs es tail" "reads dec (tail @ added) es' tail'"
  shows "reads dec (bs @ added) (es @ es') tail'"
  using assms by (induction rule: reads.induct) (auto intro: reads.entry dec_stream)

lemma reads_entries: "reads dec (concat (map (entry_bytes encw) es)) es []"
proof (induction es)
  case (Cons e es)
  then show ?case
    using dec_enc by (auto simp: entry_bytes_def intro: reads.entry)
qed (simp add: reads.stop dec_Nil)

text \<open>A log cut off anywhere is read as the entries it holds completely.\<close>

lemma reads_truncated:
  assumes "prefix bs (concat (map (entry_bytes encw) es))"
  shows "\<exists>es' tail. prefix es' es \<and> reads dec bs es' tail"
  using assms
proof (induction es arbitrary: bs)
  case Nil
  then show ?case
    using reads.stop [of dec "[]", OF dec_Nil] by auto
next
  case (Cons e es)
  show ?case
  proof (cases "length bs < length (entry_bytes encw e)")
    case True
    with Cons.prems have "bs = take (length bs) (entry_bytes encw e)"
      by (auto simp: prefix_def append_eq_append_conv_if)
    with True have "dec bs = None"
      using dec_truncated [of "length bs" e] by (simp add: entry_bytes_def)
    then show ?thesis
      by (blast intro: reads.stop Nil_prefix)
  next
    case False
    then have "prefix (entry_bytes encw e) bs"
      by (intro prefix_length_prefix [OF _ Cons.prems]) simp_all
    then obtain rest where rest: "bs = entry_bytes encw e @ rest"
      by (auto simp: prefix_def)
    with Cons.prems have "prefix rest (concat (map (entry_bytes encw) es))"
      by simp
    with Cons.IH obtain es' tail where "prefix es' es" "reads dec rest es' tail"
      by blast
    moreover have "dec bs = Some (e, rest)"
      using dec_enc by (simp add: rest entry_bytes_def)
    ultimately show ?thesis
      by (meson Cons_prefix_Cons reads.entry)
  qed
qed

end

section \<open>What the writer keeps\<close>

text \<open>The log as written so far: what is in the file and what is still buffered.\<close>

definition log_bytes :: "WalHandler \<Rightarrow> bytes" where
  "log_bytes w = wal_file w @ wal_buf w"

lemma flush_buf_keeps:
  assumes "flush_buf n w = (ok, w')"
  shows "log_bytes w' = log_bytes w" "ok \<Longrightarrow> wal_buf w' = []" "prefix (wal_file w) (wal_file w')"
  using assms by (auto simp: flush_buf_def log_bytes_def)

lemma buf_write_all_ok:
  assumes "buf_write_all io c w = (True, w')"
  shows "log_bytes w' = log_bytes w @ c"
proof -
  obtain ok w1 where w1: "(if length c > buf_capacity - length (wal_buf w) then flush_buf (fst io) w else (True, w)) = (ok, w1)"
    by fastforce
  with assms have ok by (auto simp: buf_write_all_def split: if_splits)
  with w1 have keep: "log_bytes w1 = log_bytes w"
    by (auto split: if_splits dest: flush_buf_keeps(1))
  show ?thesis
  proof (cases "length c \<ge> buf_capacity")
    case True
    have "wal_buf w1 = []"
    proof (cases "length c > buf_capacity - length (wal_buf w)")
      case True
      with w1 \<open>ok\<close> flush_buf_keeps(2) [of "fst io" w ok w1] show ?thesis
        by simp
    next
      case False
      with True have "wal_buf w = []"
        by (cases "wal_buf w") (auto simp: buf_capacity_def)
      with False w1 show ?thesis
        by simp
    qed
    with assms w1 \<open>ok\<close> True keep show ?thesis
      by (auto simp: buf_write_all_def log_bytes_def)
  next
    case False
    with assms w1 \<open>ok\<close> keep show ?thesis
      by (auto simp: buf_write_all_def log_bytes_def)
  qed
qed

lemma buf_write_all_grows: "prefix (wal_file w) (wal_file (snd (buf_write_all io c w)))"
  by (auto simp: buf_write_all_def flush_buf_def)

lemma write_chunks_ok: "write_chunks io i cs w = (True, w') \<Longrightarrow> log_bytes w' = log_bytes w @ concat cs"
  by (induction io i cs w rule: write_chunks.induct)
     (auto simp: buf_write_all_ok split: prod.splits bool.splits)

lemma write_chunks_grows: "prefix (wal_file w) (wal_file (snd (write_chunks io i cs w)))"
proof (induction io i cs w rule: write_chunks.induct)
  case (2 io i c cs w)
  obtain ok w1 where w1: "buf_write_all (io i) c w = (ok, w1)"
    by fastforce
  with buf_write_all_grows [of w "io i" c] 2 show ?case
    by (cases ok) (auto intro: prefix_order.trans)
qed simp

lemma write_entry_keeps:
  assumes "write_entry encw io e w = (st, w')"
  shows "st \<noteq> EncodeFailed \<Longrightarrow> log_bytes w' = log_bytes w @ entry_bytes encw e"
    and "st = WalOk \<Longrightarrow> wal_buf w' = []"
    and "prefix (wal_file w) (wal_file w')"
proof -
  obtain ok w1 where w1: "write_chunks io 0 (encw e) w = (ok, w1)"
    by fastforce
  obtain ok' w2 where w2: "flush_buf (fst (io (length (encw e)))) w1 = (ok', w2)"
    by fastforce
  note F = flush_buf_keeps [OF w2]
  have grow: "prefix (wal_file w) (wal_file w1)"
    using write_chunks_grows [of w io 0 "encw e"] w1 by simp
  show "log_bytes w' = log_bytes w @ entry_bytes encw e" if "st \<noteq> EncodeFailed"
    using assms that w1 w2 F(1) write_chunks_ok [of io 0 "encw e" w w1]
    by (cases ok) (auto simp: write_entry_def entry_bytes_def)
  show "wal_buf w' = []" if "st = WalOk"
    using assms that w1 w2 F(2) by (cases ok) (auto simp: write_entry_def split: if_splits)
  show "prefix (wal_file w) (wal_file w')"
    using assms w1 w2 grow F(3) by (cases ok) (auto simp: write_entry_def intro: prefix_order.trans)
qed

lemma write_entries_keeps:
  assumes "write_entries encw ws w = (sts, w')"
  shows "(EncodeFailed \<notin> set sts \<longrightarrow> log_bytes w' = log_bytes w @ concat (map (entry_bytes encw) (map snd ws))) \<and>
    (sts \<noteq> [] \<longrightarrow> last sts = WalOk \<longrightarrow> wal_buf w' = []) \<and> prefix (wal_file w) (wal_file w')"
  using assms
proof (induction ws arbitrary: w sts)
  case (Cons ioe ws)
  obtain io e where ioe: "ioe = (io, e)"
    by fastforce
  obtain st w1 where w1: "write_entry encw io e w = (st, w1)"
    by fastforce
  with Cons.prems obtain sts' where w2: "write_entries encw ws w1 = (sts', w')" and sts: "sts = st # sts'"
    by (auto simp: ioe split: prod.splits)
  have "sts' = [] \<Longrightarrow> w' = w1"
    using w2 by (cases ws) (auto split: prod.splits)
  with write_entry_keeps [OF w1] Cons.IH [OF w2] show ?case
    by (auto simp: ioe sts intro: prefix_order.trans)
qed simp

lemma write_entries_append:
  "write_entries encw (ws @ ws') w =
     (case write_entries encw ws w of (sts, w1) \<Rightarrow>
        (case write_entries encw ws' w1 of (sts', w2) \<Rightarrow> (sts @ sts', w2)))"
  by (induction encw ws w rule: write_entries.induct) (auto split: prod.splits)

lemma write_entries_length: "write_entries encw ws w = (sts, w') \<Longrightarrow> length sts = length ws"
  by (induction encw ws w arbitrary: sts rule: write_entries.induct) (auto split: prod.splits)

lemma write_entries_split:
  assumes "write_entries encw ws w = (sts, w')"
  obtains w1 where "write_entries encw (take i ws) w = (take i sts, w1)"
    "write_entries encw (drop i ws) w1 = (drop i sts, w')"
proof -
  obtain s1 w1 s2 w2 where run: "write_entries encw (take i ws) w = (s1, w1)" "write_entries encw (drop i ws) w1 = (s2, w2)"
    by (metis surj_pair)
  with assms write_entries_append [of encw "take i ws" "drop i ws" w] have "sts = s1 @ s2" "w2 = w'"
    by simp_all
  moreover have "length s1 = min (length ws) i"
    using write_entries_length [OF run(1)] by simp
  moreover have "length sts = length ws"
    using write_entries_length [OF assms] .
  ultimately show thesis
    using that run by (cases "i \<le> length ws") auto
qed

context log_codec
begin

text \<open>
  A file that was read to its end, after some writes: what is read then starts with the entries of
  every successful write and of those before it, up to the first failure of the encoder.
\<close>

lemma crash_read:
  assumes start: "reads dec (wal_file w0) old []" "wal_buf w0 = []"
    and run: "write_entries encw ws w0 = (sts, w)"
  shows "\<exists>es. read_all dec (Some (wal_file w)) = Some (old @ es) \<and>
    (\<forall>i < length ws. sts ! i = WalOk \<and> EncodeFailed \<notin> set (take i sts) \<longrightarrow> prefix (take (Suc i) (map snd ws)) es) \<and>
    (EncodeFailed \<notin> set sts \<longrightarrow> prefix es (map snd ws))"
proof -
  let ?E = "\<lambda>es. concat (map (entry_bytes encw) es)"
  obtain added where added: "wal_file w = wal_file w0 @ added"
    using write_entries_keeps [OF run] by (auto simp: prefix_def)
  obtain es tail where es: "reads dec added es tail"
    using reads_total by blast
  have "read_all dec (Some (wal_file w)) = Some (old @ es)"
    unfolding added using reads_all [OF reads_append [OF start(1), of added es tail]] es by simp
  moreover have "prefix (take (Suc i) (map snd ws)) es"
    if i: "i < length ws" "sts ! i = WalOk" "EncodeFailed \<notin> set (take i sts)" for i
  proof -
    obtain w1 where w1: "write_entries encw (take (Suc i) ws) w0 = (take (Suc i) sts, w1)"
      "write_entries encw (drop (Suc i) ws) w1 = (drop (Suc i) sts, w)"
      using write_entries_split [OF run] .
    have "take (Suc i) sts = take i sts @ [WalOk]"
      using i write_entries_length [OF run] by (simp add: take_Suc_conv_app_nth)
    with write_entries_keeps [OF w1(1)] i(3) start(2) have "wal_file w1 = wal_file w0 @ ?E (take (Suc i) (map snd ws))"
      by (auto simp: log_bytes_def take_map)
    with write_entries_keeps [OF w1(2)] added obtain rest where "added = ?E (take (Suc i) (map snd ws)) @ rest"
      by (auto simp: prefix_def)
    moreover obtain es' tail' where "reads dec rest es' tail'"
      using reads_total by blast
    ultimately have "reads dec added (take (Suc i) (map snd ws) @ es') tail'"
      using reads_append [OF reads_entries] by simp
    with es have "es = take (Suc i) (map snd ws) @ es'"
      using reads_fun by blast
    then show ?thesis
      by simp
  qed
  moreover have "prefix es (map snd ws)" if "EncodeFailed \<notin> set sts"
  proof -
    have "log_bytes w = wal_file w0 @ ?E (map snd ws)"
      using write_entries_keeps [OF run] that start(2) by (simp add: log_bytes_def)
    then have "prefix added (?E (map snd ws))"
      by (simp add: log_bytes_def added prefix_def) (metis append_assoc)
    then show ?thesis
      using reads_truncated es reads_fun by blast
  qed
  ultimately show ?thesis
    by blast
qed

end

text \<open>While the backlog leaves room for the entry, encoding cannot fail.\<close>

lemma write_chunks_room:
  "length (wal_buf w) + length (concat cs) < buf_capacity \<Longrightarrow>
     write_chunks io i cs w = (True, w\<lparr>wal_buf := wal_buf w @ concat cs\<rparr>)"
proof (induction cs arbitrary: i w)
  case (Cons c cs)
  then have "\<not> length c > buf_capacity - length (wal_buf w)" "\<not> length c \<ge> buf_capacity"
    by simp_all
  then have "buf_write_all (io i) c w = (True, w\<lparr>wal_buf := wal_buf w @ c\<rparr>)"
    by (simp add: buf_write_all_def)
  with Cons show ?case
    by simp
qed simp

lemma write_entry_room:
  assumes "length (wal_buf w) + length (entry_bytes encw e) < buf_capacity"
  shows "fst (write_entry encw io e w) \<noteq> EncodeFailed"
  using write_chunks_room [of w "encw e" io 0] assms
  by (auto simp: write_entry_def entry_bytes_def split: prod.splits)

section \<open>A concrete encoding\<close>

text \<open>
  A fixed-width encoding that has the laws: a tag byte, then the fields in order as big-endian
  words, the side as a byte.
\<close>

fun fixed_encw :: "LogEntry \<Rightarrow> bytes list" where
  "fixed_encw (Place oid uid side price qty) =
     [[0], to_be_bytes oid, to_be_bytes uid, [case side of Bid \<Rightarrow> 0 | Ask \<Rightarrow> 1], to_be_bytes price, to_be_bytes qty]"
| "fixed_encw (Cancel oid uid) = [[1], to_be_bytes oid, to_be_bytes uid]"

definition fixed_dec :: "bytes \<Rightarrow> (LogEntry \<times> bytes) option" where
  "fixed_dec bs =
     (case bs of
        [] \<Rightarrow> None
      | t # r \<Rightarrow>
          if t = 0 \<and> length r \<ge> 33
          then Some (Place (from_be_bytes (take 8 r)) (from_be_bytes (take 8 (drop 8 r)))
                       (if r ! 16 = 0 then Bid else Ask) (from_be_bytes (take 8 (drop 17 r)))
                       (from_be_bytes (take 8 (drop 25 r))), drop 33 r)
          else if t = 1 \<and> length r \<ge> 16
          then Some (Cancel (from_be_bytes (take 8 r)) (from_be_bytes (take 8 (drop 8 r))), drop 16 r)
          else None)"

interpretation fixed: log_codec fixed_encw fixed_dec
proof
  fix e rest
  show "fixed_dec (concat (fixed_encw e) @ rest) = Some (e, rest)"
    by (cases e) (auto simp: fixed_dec_def nth_append split: Side.splits)
next
  fix n e
  assume "n < length (concat (fixed_encw e))"
  then show "fixed_dec (take n (concat (fixed_encw e))) = None"
    by (cases e; cases n) (auto simp: fixed_dec_def)
next
  fix bs e rest
  assume "fixed_dec bs = Some (e, rest)"
  then show "length rest < length bs"
    by (auto simp: fixed_dec_def split: list.splits if_splits)
next
  fix bs e rest added
  assume "fixed_dec bs = Some (e, rest)"
  then show "fixed_dec (bs @ added) = Some (e, rest @ added)"
    by (auto simp: fixed_dec_def nth_append split: list.splits if_splits)
qed

section \<open>Properties of the log\<close>

text \<open>
  C36: reading a log file, whatever it holds, returns: the read loop ends.
\<close>

theorem read_all_total:
  assumes "log_codec encw dec"
  shows "\<exists>es. read_all dec f = Some es"
  using log_codec.reads_total [OF assms] by (cases f) (auto simp: read_all_def dest: reads_loop)

theorem read_all_total_witness: "\<exists>es. read_all fixed_dec (Some [1, 2, 3]) = Some es"
  by (rule read_all_total [OF fixed.log_codec_axioms])

text \<open>
  C3: recovery of the log after the process died, for a file without a torn end at the start and any
  sequence of writes, each accepted, failed or cut short in any way.  What is read afterwards is the
  old entries followed by a list that contains, in order and without gaps, every entry up to any
  write that was reported successful, as long as no earlier write failed in the encoder, which
  leaves part of an entry in the log.  If no write failed there, nothing else is read.
\<close>

theorem wal_crash_recovery:
  assumes "log_codec encw dec" "reads dec (wal_file (wal_open f)) old []"
    and "write_entries encw ws (wal_open f) = (sts, w)"
  shows "\<exists>es. read_all dec (Some (wal_file w)) = Some (old @ es) \<and>
    (\<forall>i < length ws. sts ! i = WalOk \<and> EncodeFailed \<notin> set (take i sts) \<longrightarrow> prefix (take (Suc i) (map snd ws)) es) \<and>
    (EncodeFailed \<notin> set sts \<longrightarrow> prefix es (map snd ws))"
  using assms by (intro log_codec.crash_read) (simp_all add: wal_open_def)

text \<open>An order is logged, then the write of its cancellation is cut short after three bytes.\<close>

definition sample_ws :: "((nat \<Rightarrow> nat \<times> nat) \<times> LogEntry) list" where
  "sample_ws = [(\<lambda>_. (100, 100), Place 1 10 Ask 100 5), (\<lambda>_. (3, 3), Cancel 1 10)]"

lemma sample_writes: "fst (write_entries fixed_encw sample_ws (wal_open None)) = [WalOk, FlushFailed]"
  by (simp add: sample_ws_def wal_open_def write_entry_def buf_write_all_def buf_capacity_def flush_buf_def)

theorem wal_crash_recovery_witness:
  "\<exists>es. read_all fixed_dec (Some (wal_file (snd (write_entries fixed_encw sample_ws (wal_open None))))) = Some es \<and>
     prefix [Place 1 10 Ask 100 5] es \<and> prefix es [Place 1 10 Ask 100 5, Cancel 1 10]"
proof -
  have "reads fixed_dec (wal_file (wal_open None)) [] []"
    by (simp add: wal_open_def reads.stop fixed.dec_Nil)
  from wal_crash_recovery [OF fixed.log_codec_axioms this, of sample_ws "[WalOk, FlushFailed]"
      "snd (write_entries fixed_encw sample_ws (wal_open None))"] sample_writes
  show ?thesis
    by (fastforce simp: prod_eq_iff sample_ws_def)
qed

end
