(* ===== verification/Market_Processor.thy ===== *)
theory Market_Processor
  imports Order_Engine Wal
begin

text \<open>
  The market processor of \<^verbatim>\<open>zkapp/engine/src/processor.rs\<close>: the actor that owns the order
  book, the write-ahead log and the intent auctions.  A command or a timer tick is one step
  of the state; what a command answers is its result.  Sends on the broadcast channel and
  on the outbound channel are recorded in order.
\<close>

section \<open>Data\<close>

record BundleRequest =
  br_user_id :: u64
  br_order_id :: u64
  br_side :: Side
  br_price :: u64
  br_quantity :: u64

datatype Command =
    is_SubmitBid: SubmitBid (cmd_solver: string) (cmd_intent: string) (cmd_amount: u64) (cmd_gas: u64) (cmd_sig: bytes)
  | PlaceOrder u64 u64 Side u64 u64
  | ExecuteBundle "BundleRequest list"
  | CancelOrder u64 u64
  | GetDepth nat

record Auction =
  au_intent_id :: string
  au_bids :: "(u64, string) btree"
  au_end_time :: nat

text \<open>\<open>wal_errors\<close> counts the errors of log writes, which the processor reports and passes over.\<close>

record 's MarketProcessor =
  mp_book :: "'s OrderBook"
  mp_wal :: WalHandler
  active_auctions :: "string \<rightharpoonup> Auction"
  outbound_events :: "EngineEvent list"
  event_broadcaster :: "EngineEvent list"
  wal_errors :: nat

datatype Response = NoResponse | Events "EngineEvent list" | Depth "OrderLevel list" "OrderLevel list"

text \<open>Times are in milliseconds.\<close>

definition auction_duration :: nat where
  "auction_duration = 500"

section \<open>Start\<close>

text \<open>
  Recovery: read the log, replay it on a new book, then open the log for appending, which
  panics when the file cannot be opened.  \<open>None\<close> stands for a recovery that does not end.
\<close>

definition processor_new ::
  "(Order, 's) slab_ops \<Rightarrow> (bytes \<Rightarrow> (LogEntry \<times> bytes) option) \<Rightarrow> bool \<Rightarrow> bytes option \<Rightarrow>
     (rust_panic + 's MarketProcessor) option" where
  "processor_new SO dec can_open f =
     (case read_all dec f of
        None \<Rightarrow> None
      | Some entries \<Rightarrow> Some (
          bindR (replay SO entries (new_book SO)) (\<lambda>book.
          if \<not> can_open then Inl (ExpectFailed ''Failed to open WAL file'')
          else Inr \<lparr>mp_book = book, mp_wal = wal_open f, active_auctions = Map.empty,
                    outbound_events = [], event_broadcaster = [], wal_errors = 0\<rparr>)))"

section \<open>Commands\<close>

definition log_entry ::
  "(LogEntry \<Rightarrow> bytes list) \<Rightarrow> (nat \<Rightarrow> nat \<times> nat) \<Rightarrow> LogEntry \<Rightarrow> 's MarketProcessor \<Rightarrow> 's MarketProcessor" where
  "log_entry encw io e mp =
     (case write_entry encw io e (mp_wal mp) of
        (st, w) \<Rightarrow> mp\<lparr>mp_wal := w, wal_errors := wal_errors mp + (if st = WalOk then 0 else 1)\<rparr>)"

definition broadcast_all :: "EngineEvent list \<Rightarrow> 's MarketProcessor \<Rightarrow> 's MarketProcessor" where
  "broadcast_all evs mp = mp\<lparr>event_broadcaster := event_broadcaster mp @ evs\<rparr>"

definition submit_bid :: "nat \<Rightarrow> string \<Rightarrow> string \<Rightarrow> u64 \<Rightarrow> 's MarketProcessor \<Rightarrow> 's MarketProcessor" where
  "submit_bid now solver intent amount mp =
     (case active_auctions mp intent of
        Some auction \<Rightarrow>
          mp\<lparr>active_auctions := (active_auctions mp)(intent \<mapsto>
               auction\<lparr>au_bids := bt_insert amount solver (au_bids auction)\<rparr>)\<rparr>
      | None \<Rightarrow>
          mp\<lparr>active_auctions := (active_auctions mp)(intent \<mapsto>
               \<lparr>au_intent_id = intent, au_bids = bt_insert amount solver [],
                au_end_time = now + auction_duration\<rparr>)\<rparr>)"

definition place_order ::
  "(Order, 's) slab_ops \<Rightarrow> (LogEntry \<Rightarrow> bytes list) \<Rightarrow> (nat \<Rightarrow> nat \<times> nat) \<Rightarrow> u64 \<Rightarrow> u64 \<Rightarrow> Side \<Rightarrow> u64 \<Rightarrow> u64 \<Rightarrow>
     's MarketProcessor \<Rightarrow> rust_panic + 's MarketProcessor \<times> EngineEvent list" where
  "place_order SO encw io uid oid side price qty mp =
     (let mp' = log_entry encw io (Place oid uid side price qty) mp
      in bindR (place_limit_order SO oid uid side price qty (mp_book mp')) (\<lambda>(b, evs).
           Inr (mp'\<lparr>mp_book := b\<rparr>, evs)))"

text \<open>The loop over the orders of a bundle; \<open>io k\<close> is what the file accepts while logging the \<open>k\<close>-th.\<close>

fun bundle_loop ::
  "(Order, 's) slab_ops \<Rightarrow> (LogEntry \<Rightarrow> bytes list) \<Rightarrow> (nat \<Rightarrow> nat \<Rightarrow> nat \<times> nat) \<Rightarrow> nat \<Rightarrow> BundleRequest list \<Rightarrow>
     's MarketProcessor \<Rightarrow> rust_panic + 's MarketProcessor \<times> EngineEvent list" where
  "bundle_loop SO encw io k [] mp = Inr (mp, [])"
| "bundle_loop SO encw io k (r # rs) mp =
     bindR (place_order SO encw (io k) (br_user_id r) (br_order_id r) (br_side r) (br_price r) (br_quantity r) mp)
       (\<lambda>(mp', evs). bindR (bundle_loop SO encw io (Suc k) rs mp') (\<lambda>(mp'', evs'). Inr (mp'', evs @ evs')))"

fun handle_command ::
  "build_profile \<Rightarrow> (Order, 's) slab_ops \<Rightarrow> (LogEntry \<Rightarrow> bytes list) \<Rightarrow> nat \<Rightarrow> (nat \<Rightarrow> nat \<Rightarrow> nat \<times> nat) \<Rightarrow>
     Command \<Rightarrow> 's MarketProcessor \<Rightarrow> rust_panic + 's MarketProcessor \<times> Response" where
  "handle_command prof SO encw now io (SubmitBid solver intent amount gas sig) mp =
     Inr (submit_bid now solver intent amount mp, NoResponse)"
| "handle_command prof SO encw now io (PlaceOrder uid oid side price qty) mp =
     bindR (place_order SO encw (io 0) uid oid side price qty mp) (\<lambda>(mp', evs).
       Inr (broadcast_all evs mp', Events evs))"
| "handle_command prof SO encw now io (ExecuteBundle reqs) mp =
     bindR (bundle_loop SO encw io 0 reqs mp) (\<lambda>(mp', evs). Inr (broadcast_all evs mp', Events evs))"
| "handle_command prof SO encw now io (CancelOrder uid oid) mp =
     (let mp' = log_entry encw (io 0) (Cancel oid uid) mp
      in bindR (cancel_order SO oid uid (mp_book mp')) (\<lambda>(b, evs).
           Inr (broadcast_all evs (mp'\<lparr>mp_book := b\<rparr>), Events evs)))"
| "handle_command prof SO encw now io (GetDepth limit) mp =
     bindR (get_depth prof SO limit (mp_book mp)) (\<lambda>(as, bs). Inr (mp, Depth as bs))"

section \<open>Auctions\<close>

text \<open>\<open>open_ch\<close> says whether the receiving end of the outbound channel is still there.\<close>

definition commit_to_state_machine ::
  "bool \<Rightarrow> string \<Rightarrow> string \<Rightarrow> u64 \<Rightarrow> 's MarketProcessor \<Rightarrow> 's MarketProcessor" where
  "commit_to_state_machine open_ch intent solver amount mp =
     (if open_ch then mp\<lparr>outbound_events := outbound_events mp @ [IntentResolved intent solver amount]\<rparr> else mp)"

fun commit_all :: "bool \<Rightarrow> Auction list \<Rightarrow> 's MarketProcessor \<Rightarrow> 's MarketProcessor" where
  "commit_all open_ch [] mp = mp"
| "commit_all open_ch (a # as) mp =
     commit_all open_ch as
       (case bt_last (au_bids a) of
          None \<Rightarrow> mp
        | Some (amount, solver) \<Rightarrow> commit_to_state_machine open_ch (au_intent_id a) solver amount mp)"

text \<open>
  \<open>ids\<close> is the order in which the hash map is visited: its keys, each once.  Auctions whose
  time has come are taken out of the map and committed in that order.
\<close>

definition expired :: "nat \<Rightarrow> (string \<rightharpoonup> Auction) \<Rightarrow> string \<Rightarrow> bool" where
  "expired now m i = (case m i of None \<Rightarrow> False | Some a \<Rightarrow> au_end_time a \<le> now)"

definition resolve_auctions :: "nat \<Rightarrow> string list \<Rightarrow> bool \<Rightarrow> 's MarketProcessor \<Rightarrow> 's MarketProcessor" where
  "resolve_auctions now ids open_ch mp =
     (let m = active_auctions mp;
          completed = map (\<lambda>i. the (m i)) (filter (expired now m) ids)
      in commit_all open_ch completed
           (mp\<lparr>active_auctions := (\<lambda>i. if expired now m i then None else m i)\<rparr>))"

section \<open>The actor\<close>

text \<open>One round of the \<^verbatim>\<open>select!\<close> loop of \<^verbatim>\<open>run\<close>: a command that arrived, or a tick.\<close>

datatype mp_input =
    Received nat "nat \<Rightarrow> nat \<Rightarrow> nat \<times> nat" Command
  | Tick nat "string list" bool

fun processor_step ::
  "build_profile \<Rightarrow> (Order, 's) slab_ops \<Rightarrow> (LogEntry \<Rightarrow> bytes list) \<Rightarrow> mp_input \<Rightarrow> 's MarketProcessor \<Rightarrow>
     rust_panic + 's MarketProcessor" where
  "processor_step prof SO encw (Received now io cmd) mp =
     bindR (handle_command prof SO encw now io cmd mp) (\<lambda>(mp', _). Inr mp')"
| "processor_step prof SO encw (Tick now ids open_ch) mp = Inr (resolve_auctions now ids open_ch mp)"

definition processor_run ::
  "build_profile \<Rightarrow> (Order, 's) slab_ops \<Rightarrow> (LogEntry \<Rightarrow> bytes list) \<Rightarrow> mp_input list \<Rightarrow> 's MarketProcessor \<Rightarrow>
     rust_panic + 's MarketProcessor" where
  "processor_run prof SO encw inputs mp = run_steps (processor_step prof SO encw) inputs mp"

section \<open>What the inputs append to the log\<close>

definition bundle_entry :: "BundleRequest \<Rightarrow> LogEntry" where
  "bundle_entry r = Place (br_order_id r) (br_user_id r) (br_side r) (br_price r) (br_quantity r)"

fun cmd_entries :: "Command \<Rightarrow> LogEntry list" where
  "cmd_entries (SubmitBid _ _ _ _ _) = []"
| "cmd_entries (PlaceOrder uid oid side price qty) = [Place oid uid side price qty]"
| "cmd_entries (ExecuteBundle reqs) = map bundle_entry reqs"
| "cmd_entries (CancelOrder uid oid) = [Cancel oid uid]"
| "cmd_entries (GetDepth _) = []"

fun input_entries :: "mp_input \<Rightarrow> LogEntry list" where
  "input_entries (Received _ _ cmd) = cmd_entries cmd"
| "input_entries (Tick _ _ _) = []"

text \<open>
  From a file with the bytes \<open>base\<close>, of which the entries \<open>old\<close> were read: the book is what these and
  the entries logged since then build, and as long as no write failed the file holds the old bytes
  and exactly the entries since then.
\<close>

definition logged ::
  "(Order, 's) slab_ops \<Rightarrow> (LogEntry \<Rightarrow> bytes list) \<Rightarrow> bytes \<Rightarrow> LogEntry list \<Rightarrow> LogEntry list \<Rightarrow> 's MarketProcessor \<Rightarrow> bool" where
  "logged SO encw base old log mp \<longleftrightarrow>
     replay SO (old @ log) (new_book SO) = Inr (mp_book mp) \<and>
     (wal_errors mp = 0 \<longrightarrow> wal_buf (mp_wal mp) = [] \<and> wal_file (mp_wal mp) = base @ concat (map (entry_bytes encw) log))"

lemma logged_cong:
  assumes "mp_book mp' = mp_book mp" "mp_wal mp' = mp_wal mp" "wal_errors mp' = wal_errors mp"
  shows "logged SO encw base old log mp' \<longleftrightarrow> logged SO encw base old log mp"
  using assms by (simp add: logged_def)

lemma log_entry_book [simp]: "mp_book (log_entry encw io e mp) = mp_book mp"
  by (simp add: log_entry_def split: prod.splits)

lemma logged_log_entry:
  assumes log: "logged SO encw base old log mp" and app: "apply_entry SO e (mp_book mp) = Inr b"
  shows "logged SO encw base old (log @ [e]) ((log_entry encw io e mp)\<lparr>mp_book := b\<rparr>)"
proof -
  obtain st w where w: "write_entry encw io e (mp_wal mp) = (st, w)"
    by fastforce
  have "replay SO ((old @ log) @ [e]) (new_book SO) = Inr b"
    using log app unfolding replay_def run_steps_append [of _ "old @ log"] by (simp add: logged_def replay_def)
  moreover have "wal_buf w = [] \<and> wal_file w = base @ concat (map (entry_bytes encw) (log @ [e]))"
    if "wal_errors mp = 0" "st = WalOk"
    using log that write_entry_keeps(1,2) [OF w] by (auto simp: logged_def log_bytes_def)
  ultimately show ?thesis
    by (simp add: logged_def log_entry_def w)
qed

lemma place_order_logged:
  assumes "logged SO encw base old log mp" "place_order SO encw io uid oid side price qty mp = Inr (mp', evs)"
  shows "logged SO encw base old (log @ [Place oid uid side price qty]) mp'"
  using assms by (auto simp: place_order_def panic_simps Let_def intro!: logged_log_entry)

lemma bundle_loop_logged:
  assumes "logged SO encw base old log mp" "bundle_loop SO encw io k rs mp = Inr (mp', evs)"
  shows "logged SO encw base old (log @ map bundle_entry rs) mp'"
  using assms
proof (induction rs arbitrary: k log mp evs)
  case (Cons r rs)
  then obtain mp1 evs1 evs2 where
    one: "place_order SO encw (io k) (br_user_id r) (br_order_id r) (br_side r) (br_price r) (br_quantity r) mp = Inr (mp1, evs1)"
    and rest: "bundle_loop SO encw io (Suc k) rs mp1 = Inr (mp', evs2)"
    by (auto simp: panic_simps)
  from Cons.IH [OF place_order_logged [OF Cons.prems(1) one] rest] show ?case
    by (simp add: bundle_entry_def)
qed simp

lemma commit_all_frame [simp]:
  "mp_book (commit_all ch as mp) = mp_book mp" "mp_wal (commit_all ch as mp) = mp_wal mp"
  "wal_errors (commit_all ch as mp) = wal_errors mp" "active_auctions (commit_all ch as mp) = active_auctions mp"
  "event_broadcaster (commit_all ch as mp) = event_broadcaster mp"
  by (induction ch as mp rule: commit_all.induct;
      simp add: commit_to_state_machine_def split: option.splits prod.splits)+

lemma handle_command_logged:
  assumes "logged SO encw base old log mp" "handle_command prof SO encw now io cmd mp = Inr (mp', r)"
  shows "logged SO encw base old (log @ cmd_entries cmd) mp'"
proof (cases cmd)
  case (SubmitBid solver intent amount gas sig)
  with assms show ?thesis
    by (auto simp: submit_bid_def logged_def split: option.splits)
next
  case (PlaceOrder uid oid side price qty)
  with assms(2) obtain mp1 evs where "place_order SO encw (io 0) uid oid side price qty mp = Inr (mp1, evs)"
    "mp' = broadcast_all evs mp1"
    by (auto simp: panic_simps)
  with place_order_logged [OF assms(1)] PlaceOrder show ?thesis
    by (simp add: broadcast_all_def logged_def)
next
  case (ExecuteBundle reqs)
  with assms(2) obtain mp1 evs where "bundle_loop SO encw io 0 reqs mp = Inr (mp1, evs)"
    "mp' = broadcast_all evs mp1"
    by (auto simp: panic_simps)
  with bundle_loop_logged [OF assms(1)] ExecuteBundle show ?thesis
    by (simp add: broadcast_all_def logged_def)
next
  case (CancelOrder uid oid)
  with assms(2) obtain b evs where b: "cancel_order SO oid uid (mp_book mp) = Inr (b, evs)"
    and mp': "mp' = broadcast_all evs ((log_entry encw (io 0) (Cancel oid uid) mp)\<lparr>mp_book := b\<rparr>)"
    by (auto simp: panic_simps Let_def)
  have "logged SO encw base old (log @ [Cancel oid uid]) ((log_entry encw (io 0) (Cancel oid uid) mp)\<lparr>mp_book := b\<rparr>)"
    by (rule logged_log_entry [OF assms(1)]) (simp add: b)
  then show ?thesis
    unfolding mp' by (simp add: CancelOrder broadcast_all_def logged_def)
next
  case (GetDepth limit)
  with assms show ?thesis
    by (auto simp: panic_simps)
qed

lemma processor_step_logged:
  assumes "logged SO encw base old log mp" "processor_step prof SO encw i mp = Inr mp'"
  shows "logged SO encw base old (log @ input_entries i) mp'"
proof (cases i)
  case (Received now io cmd)
  with assms handle_command_logged show ?thesis
    by (fastforce simp: panic_simps)
next
  case (Tick now ids ch)
  with assms show ?thesis
    by (auto simp: resolve_auctions_def Let_def logged_def)
qed

lemma processor_run_logged:
  assumes "logged SO encw base old log mp" "processor_run prof SO encw inputs mp = Inr mp'"
  shows "logged SO encw base old (log @ concat (map input_entries inputs)) mp'"
  using assms
proof (induction inputs arbitrary: log mp)
  case (Cons i inputs)
  then obtain mp1 where "processor_step prof SO encw i mp = Inr mp1" "processor_run prof SO encw inputs mp1 = Inr mp'"
    by (auto simp: processor_run_def panic_simps)
  with Cons.IH [OF processor_step_logged [OF Cons.prems(1)]] show ?case
    by simp
qed (simp add: processor_run_def)

section \<open>Panics\<close>

context order_slab
begin

lemma place_order_safe:
  assumes "book_inv SO (mp_book mp)"
  shows "\<exists>mp' evs. place_order SO encw io uid oid side price qty mp = Inr (mp', evs) \<and> book_inv SO (mp_book mp')"
  using place_refines [OF assms, of oid uid side price qty] by (auto simp: place_order_def Let_def)

lemma bundle_loop_safe:
  "book_inv SO (mp_book mp) \<Longrightarrow>
     \<exists>mp' evs. bundle_loop SO encw io k rs mp = Inr (mp', evs) \<and> book_inv SO (mp_book mp')"
proof (induction rs arbitrary: k mp)
  case (Cons r rs)
  obtain mp1 evs where
    "place_order SO encw (io k) (br_user_id r) (br_order_id r) (br_side r) (br_price r) (br_quantity r) mp = Inr (mp1, evs)"
    "book_inv SO (mp_book mp1)"
    using place_order_safe [OF Cons.prems] by blast
  with Cons.IH [of mp1 "Suc k"] show ?case
    by auto
qed simp

lemma handle_command_safe:
  assumes inv: "book_inv SO (mp_book mp)"
  shows "\<exists>mp' r. handle_command Release SO encw now io cmd mp = Inr (mp', r) \<and> book_inv SO (mp_book mp')"
proof (cases cmd)
  case (SubmitBid solver intent amount gas sig)
  with inv show ?thesis
    by (auto simp: submit_bid_def split: option.splits)
next
  case (PlaceOrder uid oid side price qty)
  with place_order_safe [OF inv, of encw "io 0" uid oid side price qty] show ?thesis
    by (auto simp: broadcast_all_def)
next
  case (ExecuteBundle reqs)
  with bundle_loop_safe [OF inv, of encw io 0 reqs] show ?thesis
    by (auto simp: broadcast_all_def)
next
  case (CancelOrder uid oid)
  with cancel_safe [OF inv, of oid uid] show ?thesis
    by (auto simp: broadcast_all_def Let_def)
next
  case (GetDepth limit)
  obtain as bs where "get_depth Release SO limit (mp_book mp) = Inr (as, bs)"
    using get_depth_release [of SO limit "mp_book mp"] by auto
  with GetDepth inv show ?thesis
    by simp
qed

end

sublocale order_slab \<subseteq> processor: panic_free "processor_step Release SO encw" "\<lambda>mp. book_inv SO (mp_book mp)"
    "\<lambda>_. True" for encw
proof
  fix mp :: "'s MarketProcessor" and i
  assume inv: "book_inv SO (mp_book mp)"
  show "\<exists>mp'. processor_step Release SO encw i mp = Inr mp' \<and> book_inv SO (mp_book mp')"
  proof (cases i)
    case (Received now io cmd)
    with handle_command_safe [OF inv, of encw now io cmd] show ?thesis
      by auto
  next
    case (Tick now ids ch)
    with inv show ?thesis
      by (simp add: resolve_auctions_def Let_def)
  qed
qed

context order_slab
begin

lemma processor_safe:
  "book_inv SO (mp_book mp) \<Longrightarrow> \<exists>mp'. processor_run Release SO encw inputs mp = Inr mp' \<and> book_inv SO (mp_book mp')"
  unfolding processor_run_def using processor.run_safe by simp

end

section \<open>Runs without log errors\<close>

text \<open>A file that accepts everything: then no write fails.\<close>

definition accepting :: "mp_input \<Rightarrow> bool" where
  "accepting i = (case i of Received _ io _ \<Rightarrow> (\<forall>k n. buf_capacity \<le> fst (io k n)) | _ \<Rightarrow> True)"

definition clean :: "'s MarketProcessor \<Rightarrow> bool" where
  "clean mp \<longleftrightarrow> wal_errors mp = 0 \<and> wal_buf (mp_wal mp) = []"

lemma log_entry_clean:
  assumes "clean mp" "\<forall>n. buf_capacity \<le> fst (io n)" "length (entry_bytes encw e) < buf_capacity"
  shows "clean (log_entry encw io e mp)"
proof -
  have "write_chunks io 0 (encw e) (mp_wal mp) = (True, (mp_wal mp)\<lparr>wal_buf := entry_bytes encw e\<rparr>)"
    using assms write_chunks_room [of "mp_wal mp" "encw e" io 0] by (simp add: clean_def entry_bytes_def)
  moreover have "length (entry_bytes encw e) \<le> fst (io (length (encw e)))"
    using assms(2,3) less_imp_le le_trans by metis
  ultimately show ?thesis
    using assms(1) by (simp add: clean_def log_entry_def write_entry_def flush_buf_def)
qed

lemma place_order_clean:
  assumes "clean mp" "\<forall>n. buf_capacity \<le> fst (io n)" "\<forall>e. length (entry_bytes encw e) < buf_capacity"
    and "place_order SO encw io uid oid side price qty mp = Inr (mp', evs)"
  shows "clean mp'"
  using assms log_entry_clean [of mp io encw "Place oid uid side price qty"]
  by (auto simp: place_order_def Let_def panic_simps clean_def)

lemma bundle_loop_clean:
  assumes "clean mp" "\<forall>k n. buf_capacity \<le> fst (io k n)" "\<forall>e. length (entry_bytes encw e) < buf_capacity"
    and "bundle_loop SO encw io k rs mp = Inr (mp', evs)"
  shows "clean mp'"
  using assms(1,4)
proof (induction rs arbitrary: k mp evs)
  case (Cons r rs)
  then obtain mp1 evs1 evs2 where
    "place_order SO encw (io k) (br_user_id r) (br_order_id r) (br_side r) (br_price r) (br_quantity r) mp = Inr (mp1, evs1)"
    "bundle_loop SO encw io (Suc k) rs mp1 = Inr (mp', evs2)"
    by (auto simp: panic_simps)
  with Cons place_order_clean assms(2,3) show ?case
    by metis
qed simp

lemma step_clean:
  assumes "clean mp" "accepting i" "\<forall>e. length (entry_bytes encw e) < buf_capacity"
    and "processor_step prof SO encw i mp = Inr mp'"
  shows "clean mp'"
proof (cases i)
  case (Received now io cmd)
  with assms(2) have io: "\<forall>k n. buf_capacity \<le> fst (io k n)"
    by (simp add: accepting_def)
  show ?thesis
  proof (cases cmd)
    case (SubmitBid solver int amount gas sig)
    with assms Received show ?thesis
      by (auto simp: submit_bid_def clean_def split: option.splits)
  next
    case (PlaceOrder uid oid side price qty)
    with assms(4) Received obtain mp1 evs where "place_order SO encw (io 0) uid oid side price qty mp = Inr (mp1, evs)"
      "mp' = broadcast_all evs mp1"
      by (auto simp: panic_simps)
    then show ?thesis
      using place_order_clean [OF assms(1) spec [OF io] assms(3)] by (simp add: clean_def broadcast_all_def)
  next
    case (ExecuteBundle reqs)
    with assms(4) Received obtain mp1 evs where "bundle_loop SO encw io 0 reqs mp = Inr (mp1, evs)"
      "mp' = broadcast_all evs mp1"
      by (auto simp: panic_simps)
    with bundle_loop_clean [OF assms(1) io assms(3)] show ?thesis
      by (auto simp: clean_def broadcast_all_def)
  next
    case (CancelOrder uid oid)
    with assms(3,4) Received log_entry_clean [OF assms(1), of "io 0" encw "Cancel oid uid"] io show ?thesis
      by (auto simp: clean_def broadcast_all_def Let_def panic_simps)
  next
    case (GetDepth limit)
    with assms Received show ?thesis
      by (auto simp: panic_simps)
  qed
next
  case (Tick now ids ch)
  with assms show ?thesis
    by (auto simp: clean_def resolve_auctions_def Let_def)
qed

lemma run_clean:
  assumes "clean mp" "\<forall>i \<in> set inputs. accepting i" "\<forall>e. length (entry_bytes encw e) < buf_capacity"
    and "processor_run prof SO encw inputs mp = Inr mp'"
  shows "clean mp'"
  using assms(1,2,4)
proof (induction inputs arbitrary: mp)
  case (Cons i inputs)
  then obtain mp1 where "processor_step prof SO encw i mp = Inr mp1" "processor_run prof SO encw inputs mp1 = Inr mp'"
    by (auto simp: processor_run_def panic_simps)
  with Cons step_clean [OF _ _ assms(3)] show ?case
    by (metis list.set_intros)
qed (simp add: processor_run_def)

section \<open>The course of an auction\<close>

text \<open>A bid is a solver and an amount; \<open>au_bids\<close> is what a list of bids leaves in the map.\<close>

definition insert_bids :: "(string \<times> u64) list \<Rightarrow> (u64, string) btree \<Rightarrow> (u64, string) btree" where
  "insert_bids bs m = fold (\<lambda>(s, a). bt_insert a s) bs m"

lemma log_entry_auctions [simp]:
  "active_auctions (log_entry encw io e mp) = active_auctions mp"
  "outbound_events (log_entry encw io e mp) = outbound_events mp"
  by (simp_all add: log_entry_def split: prod.splits)

lemma place_order_auctions:
  "place_order SO encw io uid oid side price qty mp = Inr (mp', evs) \<Longrightarrow>
     active_auctions mp' = active_auctions mp \<and> outbound_events mp' = outbound_events mp"
  by (auto simp: place_order_def Let_def panic_simps)

lemma bundle_loop_auctions:
  "bundle_loop SO encw io k rs mp = Inr (mp', evs) \<Longrightarrow>
     active_auctions mp' = active_auctions mp \<and> outbound_events mp' = outbound_events mp"
  by (induction rs arbitrary: k mp evs) (auto simp: panic_simps dest!: place_order_auctions)

lemma insert_bids_append: "insert_bids (bs @ bs') m = insert_bids bs' (insert_bids bs m)"
  by (simp add: insert_bids_def)

text \<open>The best bid: the greatest amount, and of the solvers that offered it the last.\<close>

definition best_bid :: "(string \<times> u64) list \<Rightarrow> u64 \<times> string" where
  "best_bid bs =
     (let top = Max (set (map snd bs))
      in (top, last (map fst (filter (\<lambda>b. snd b = top) bs))))"

lemma insert_bids_ok: "bt_ok m \<Longrightarrow> bt_ok (insert_bids bs m)"
  by (induction bs arbitrary: m) (auto simp: insert_bids_def bt_laws)

lemma insert_bids_keys: "fst ` set (insert_bids bs m) = snd ` set bs \<union> fst ` set m"
  by (induction bs arbitrary: m) (simp_all add: insert_bids_def case_prod_beta)

lemma insert_bids_get:
  "bt_get (insert_bids bs m) a =
     (case filter (\<lambda>b. snd b = a) bs of
        [] \<Rightarrow> bt_get m a
      | x # xs \<Rightarrow> Some (fst (last (x # xs))))"
  by (induction bs arbitrary: m) (auto simp: insert_bids_def bt_laws split: list.splits)

lemma winner:
  assumes "bs \<noteq> []"
  shows "bt_last (insert_bids bs []) = Some (best_bid bs)"
proof -
  let ?m = "insert_bids bs []"
  have ok: "bt_ok ?m"
    by (simp add: insert_bids_ok)
  have keys: "fst ` set ?m = set (map snd bs)"
    by (simp add: insert_bids_keys)
  have "?m \<noteq> []"
    using assms keys by (cases bs) auto
  then obtain k v where last: "bt_last ?m = Some (k, v)"
    by (cases "last ?m") (simp add: bt_last_def)
  note L = bt_last_Some [OF ok last]
  have "k \<in> fst ` set ?m"
    using L(1) ok by (force simp: bt_get_Some_iff)
  then have top: "Max (set (map snd bs)) = k"
    using L(2) unfolding keys by (intro Max_eqI) auto
  have "v = last (map fst (filter (\<lambda>b. snd b = k) bs))"
    using L(1) unfolding insert_bids_get by (auto simp: bt_get_def last_map split: list.splits)
  with last top show ?thesis
    by (simp add: best_bid_def)
qed

text \<open>The events a tick sends for an intent.\<close>

definition resolutions :: "string \<Rightarrow> EngineEvent list \<Rightarrow> EngineEvent list" where
  "resolutions intent evs =
     filter (\<lambda>ev. case ev of IntentResolved i _ _ \<Rightarrow> i = intent | _ \<Rightarrow> False) evs"

lemma resolutions_append:
  "resolutions intent (evs @ evs') = resolutions intent evs @ resolutions intent evs'"
  "resolutions intent [IntentResolved intent s a] = [IntentResolved intent s a]"
  by (simp_all add: resolutions_def)

text \<open>Every auction is stored under the id of its intent.\<close>

definition auctions_ok :: "'s MarketProcessor \<Rightarrow> bool" where
  "auctions_ok mp \<longleftrightarrow> (\<forall>i a. active_auctions mp i = Some a \<longrightarrow> au_intent_id a = i)"

lemma commit_all_resolutions:
  assumes "\<forall>a \<in> set as. au_intent_id a \<noteq> intent"
  shows "resolutions intent (outbound_events (commit_all ch as mp)) = resolutions intent (outbound_events mp)"
  using assms
  by (induction ch as mp rule: commit_all.induct)
     (auto simp: resolutions_def commit_to_state_machine_def split: option.splits)

lemma commit_all_append: "commit_all ch (as @ as') mp = commit_all ch as' (commit_all ch as mp)"
  by (induction ch as mp rule: commit_all.induct) auto

lemma resolve_open:
  assumes ok: "auctions_ok mp" and ids: "distinct ids" "set ids = dom (active_auctions mp)"
    and a: "active_auctions mp intent = Some a" "au_end_time a \<le> now" "bt_last (au_bids a) = Some (amount, solver)"
  shows "resolutions intent (outbound_events (resolve_auctions now ids ch mp)) =
      resolutions intent (outbound_events mp) @ (if ch then [IntentResolved intent solver amount] else [])"
    and "active_auctions (resolve_auctions now ids ch mp) intent = None"
proof -
  let ?m = "active_auctions mp"
  have ex: "expired now ?m intent"
    using a by (simp add: expired_def)
  show "active_auctions (resolve_auctions now ids ch mp) intent = None"
    by (simp add: resolve_auctions_def Let_def ex)
  from ids a(1) have "intent \<in> set ids"
    by auto
  then obtain xs ys where split: "ids = xs @ intent # ys"
    by (meson split_list)
  have others: "\<forall>b \<in> set (map (\<lambda>i. the (?m i)) (filter (expired now ?m) zs)). au_intent_id b \<noteq> intent"
    if "intent \<notin> set zs" for zs
    using ok that by (auto simp: auctions_ok_def expired_def split: option.splits)
  have notin: "intent \<notin> set xs" "intent \<notin> set ys"
    using ids(1) by (auto simp: split)
  have id: "au_intent_id a = intent"
    using ok a(1) by (simp add: auctions_ok_def)
  show "resolutions intent (outbound_events (resolve_auctions now ids ch mp)) =
      resolutions intent (outbound_events mp) @ (if ch then [IntentResolved intent solver amount] else [])"
    using ex a id
    by (simp add: resolve_auctions_def Let_def split commit_all_append commit_to_state_machine_def
        resolutions_append commit_all_resolutions [OF others [OF notin(1)]] commit_all_resolutions [OF others [OF notin(2)]])
qed

lemma resolve_pending:
  assumes ok: "auctions_ok mp" and ex: "\<not> expired now (active_auctions mp) intent"
  shows "resolutions intent (outbound_events (resolve_auctions now ids ch mp)) = resolutions intent (outbound_events mp)"
    and "active_auctions (resolve_auctions now ids ch mp) intent = active_auctions mp intent"
proof -
  let ?m = "active_auctions mp"
  show "active_auctions (resolve_auctions now ids ch mp) intent = active_auctions mp intent"
    using ex by (simp add: resolve_auctions_def Let_def)
  have others: "\<forall>b \<in> set (map (\<lambda>i. the (?m i)) (filter (expired now ?m) ids)). au_intent_id b \<noteq> intent"
    using ok ex by (auto simp: auctions_ok_def expired_def split: option.splits)
  show "resolutions intent (outbound_events (resolve_auctions now ids ch mp)) = resolutions intent (outbound_events mp)"
    by (simp add: resolve_auctions_def Let_def commit_all_resolutions [OF others])
qed

section \<open>What an auction promises\<close>

text \<open>
  The auction of one intent as its bidders see it: closed, or open until a time with the bids made so
  far.  The first bid opens it for 500 milliseconds; a tick at or after its end closes it and, while
  the outbound channel is open, awards the intent to the best bid.
\<close>

type_synonym auction_state = "(nat \<times> (string \<times> u64) list) option"

fun auction_step :: "string \<Rightarrow> mp_input \<Rightarrow> auction_state \<Rightarrow> auction_state \<times> EngineEvent list" where
  "auction_step intent (Received now io (SubmitBid solver i amount gas sig)) st =
     (if i \<noteq> intent then (st, [])
      else case st of
        None \<Rightarrow> (Some (now + 500, [(solver, amount)]), [])
      | Some (close, bs) \<Rightarrow> (Some (close, bs @ [(solver, amount)]), []))"
| "auction_step intent (Tick now ids open_ch) (Some (close, bs)) =
     (if now < close then (Some (close, bs), [])
      else (None, if open_ch then [IntentResolved intent (snd (best_bid bs)) (fst (best_bid bs))] else []))"
| "auction_step intent _ st = (st, [])"

fun auction_run :: "string \<Rightarrow> mp_input list \<Rightarrow> auction_state \<Rightarrow> EngineEvent list" where
  "auction_run intent [] st = []"
| "auction_run intent (i # is) st = (case auction_step intent i st of (st', evs) \<Rightarrow> evs @ auction_run intent is st')"

text \<open>A tick visits the entries of the hash map in some order, each once.\<close>

fun visits_all :: "mp_input \<Rightarrow> 's MarketProcessor \<Rightarrow> bool" where
  "visits_all (Tick now ids open_ch) mp \<longleftrightarrow> distinct ids \<and> set ids = dom (active_auctions mp)"
| "visits_all (Received now io cmd) mp \<longleftrightarrow> True"

fun ticks_visit_all ::
  "build_profile \<Rightarrow> (Order, 's) slab_ops \<Rightarrow> (LogEntry \<Rightarrow> bytes list) \<Rightarrow> mp_input list \<Rightarrow> 's MarketProcessor \<Rightarrow> bool" where
  "ticks_visit_all prof SO encw [] mp \<longleftrightarrow> True"
| "ticks_visit_all prof SO encw (i # is) mp \<longleftrightarrow>
     visits_all i mp \<and> (case processor_step prof SO encw i mp of Inl _ \<Rightarrow> True | Inr mp' \<Rightarrow> ticks_visit_all prof SO encw is mp')"

definition runs_auction :: "string \<Rightarrow> 's MarketProcessor \<Rightarrow> auction_state \<Rightarrow> bool" where
  "runs_auction intent mp st \<longleftrightarrow> auctions_ok mp \<and>
     (case st of
        None \<Rightarrow> active_auctions mp intent = None
      | Some (close, bs) \<Rightarrow> bs \<noteq> [] \<and>
          active_auctions mp intent = Some \<lparr>au_intent_id = intent, au_bids = insert_bids bs [], au_end_time = close\<rparr>)"

lemma runs_auction_cong:
  "active_auctions mp' = active_auctions mp \<Longrightarrow> runs_auction intent mp' st \<longleftrightarrow> runs_auction intent mp st"
  by (simp add: runs_auction_def auctions_ok_def split: option.split)

lemma submit_bid_runs:
  assumes "runs_auction intent mp st"
  shows "runs_auction intent (submit_bid now solver i amount mp)
      (fst (auction_step intent (Received now io (SubmitBid solver i amount gas sig)) st))"
    and "outbound_events (submit_bid now solver i amount mp) = outbound_events mp"
  using assms
  by (auto simp: runs_auction_def submit_bid_def auctions_ok_def auction_duration_def insert_bids_append split: option.splits)
     (auto simp: insert_bids_def)

lemma resolve_runs:
  assumes "runs_auction intent mp st" "visits_all (Tick now ids ch) mp"
  shows "runs_auction intent (resolve_auctions now ids ch mp) (fst (auction_step intent (Tick now ids ch) st)) \<and>
    resolutions intent (outbound_events (resolve_auctions now ids ch mp)) =
      resolutions intent (outbound_events mp) @ snd (auction_step intent (Tick now ids ch) st)"
proof -
  have ok: "auctions_ok mp" "auctions_ok (resolve_auctions now ids ch mp)"
    using assms(1) by (auto simp: runs_auction_def auctions_ok_def resolve_auctions_def Let_def split: if_splits)
  show ?thesis
  proof (cases "expired now (active_auctions mp) intent")
    case True
    with assms(1) obtain close bs where st: "st = Some (close, bs)" "bs \<noteq> []" "close \<le> now"
      "active_auctions mp intent = Some \<lparr>au_intent_id = intent, au_bids = insert_bids bs [], au_end_time = close\<rparr>"
      by (auto simp: runs_auction_def expired_def split: option.splits)
    from resolve_open [OF ok(1) _ _ st(4), of ids now "fst (best_bid bs)" "snd (best_bid bs)" ch] assms(2) st winner [OF st(2)] ok(2)
    show ?thesis
      by (simp add: runs_auction_def)
  next
    case False
    with resolve_pending [OF ok(1) False] assms(1) ok(2) show ?thesis
      by (auto simp: runs_auction_def expired_def split: option.splits)
  qed
qed

lemma other_command_frame:
  assumes "handle_command prof SO encw now io cmd mp = Inr (mp', r)" "\<not> is_SubmitBid cmd"
  shows "active_auctions mp' = active_auctions mp \<and> outbound_events mp' = outbound_events mp"
  using assms by (cases cmd) (auto simp: panic_simps broadcast_all_def Let_def dest!: place_order_auctions bundle_loop_auctions)

lemma step_runs:
  assumes "processor_step prof SO encw i mp = Inr mp'" "runs_auction intent mp st" "visits_all i mp"
  shows "runs_auction intent mp' (fst (auction_step intent i st)) \<and>
    resolutions intent (outbound_events mp') = resolutions intent (outbound_events mp) @ snd (auction_step intent i st)"
proof (cases i)
  case (Tick now ids ch)
  with assms(1) have "mp' = resolve_auctions now ids ch mp"
    by simp
  with resolve_runs [OF assms(2) assms(3) [unfolded Tick]] Tick show ?thesis
    by simp
next
  case (Received now io cmd)
  with assms(1) obtain r where cmd: "handle_command prof SO encw now io cmd mp = Inr (mp', r)"
    by (auto simp: panic_simps)
  show ?thesis
  proof (cases "is_SubmitBid cmd")
    case True
    then obtain solver j amount gas sig where SubmitBid: "cmd = SubmitBid solver j amount gas sig"
      by (cases cmd) auto
    with cmd have "mp' = submit_bid now solver j amount mp"
      by simp
    moreover have "snd (auction_step intent (Received now io (SubmitBid solver j amount gas sig)) st) = []"
      by (simp split: option.split)
    ultimately show ?thesis
      unfolding Received SubmitBid using submit_bid_runs [OF assms(2)] by (simp del: auction_step.simps)
  next
    case False
    then have "auction_step intent i st = (st, [])"
      by (cases cmd) (simp_all add: Received)
    with other_command_frame [OF cmd False] runs_auction_cong [of mp' mp intent st] assms(2) show ?thesis
      by simp
  qed
qed

lemma run_auction:
  assumes "processor_run prof SO encw inputs mp = Inr mp'" "runs_auction intent mp st" "ticks_visit_all prof SO encw inputs mp"
  shows "resolutions intent (outbound_events mp') = resolutions intent (outbound_events mp) @ auction_run intent inputs st"
  using assms
proof (induction inputs arbitrary: mp st)
  case Nil
  then show ?case
    by (simp add: processor_run_def)
next
  case (Cons i inputs)
  then obtain mp1 where one: "processor_step prof SO encw i mp = Inr mp1" and rest: "processor_run prof SO encw inputs mp1 = Inr mp'"
    by (auto simp: processor_run_def panic_simps)
  with Cons.prems(3) have "visits_all i mp" "ticks_visit_all prof SO encw inputs mp1"
    by simp_all
  with step_runs [OF one Cons.prems(2)] Cons.IH [OF rest, of "fst (auction_step intent i st)"] show ?case
    by (simp add: case_prod_beta)
qed

section \<open>Properties of the processor\<close>

text \<open>
  C4: the resolutions of an intent, over any run from a processor that has no auction for it: with bids,
  orders and ticks in any order and number, they are exactly those of the auction as specified.
  The first bid opens it for 500 milliseconds; a tick before that sends nothing and leaves it open for
  further bids; the first tick after that sends one resolution, to the highest bid and among equal
  bids to the solver that bid last, and a later bid opens a new auction.  (A tick visits each
  auction of the hash map once, in any order.)
\<close>

theorem auction_outcome:
  assumes "processor_run prof SO encw inputs mp = Inr mp'"
    and "auctions_ok mp" "active_auctions mp intent = None" "ticks_visit_all prof SO encw inputs mp"
  shows "resolutions intent (outbound_events mp') = resolutions intent (outbound_events mp) @ auction_run intent inputs None"
  using assms by (intro run_auction) (simp_all add: runs_auction_def)

lemma processor_run_Cons [simp]:
  "processor_run prof SO encw [] mp = Inr mp"
  "processor_run prof SO encw (i # is) mp = bindR (processor_step prof SO encw i mp) (processor_run prof SO encw is)"
  by (auto simp: processor_run_def fun_eq_iff intro: arg_cong [where f = "bindR _"])

definition idle_processor :: "Order slots MarketProcessor" where
  "idle_processor = \<lparr>mp_book = new_book vec_slab, mp_wal = wal_open None, active_auctions = Map.empty,
     outbound_events = [], event_broadcaster = [], wal_errors = 0\<rparr>"

text \<open>Two equal best bids with a tick between them, then the closing tick and a late bid.\<close>

definition sample_bids :: "mp_input list" where
  "sample_bids = [Received 10 (\<lambda>_ _. (100, 100)) (SubmitBid ''s1'' ''swap'' 70 0 []),
     Received 20 (\<lambda>_ _. (100, 100)) (SubmitBid ''s2'' ''swap'' 90 0 []), Tick 500 [''swap''] True,
     Received 505 (\<lambda>_ _. (100, 100)) (SubmitBid ''s3'' ''swap'' 90 0 []), Tick 1000 [''swap''] True,
     Received 1010 (\<lambda>_ _. (100, 100)) (SubmitBid ''s4'' ''swap'' 95 0 []), Tick 1500 [''swap''] True]"

lemma sample_bids_run: "auction_run ''swap'' sample_bids None = [IntentResolved ''swap'' ''s3'' 90]"
  by code_simp

theorem auction_outcome_witness:
  "\<exists>mp'. processor_run Debug vec_slab fixed_encw sample_bids idle_processor = Inr mp' \<and>
     resolutions ''swap'' (outbound_events mp') = [IntentResolved ''swap'' ''s3'' 90]"
proof -
  obtain mp' where run: "processor_run Debug vec_slab fixed_encw sample_bids idle_processor = Inr mp'"
    by (simp add: sample_bids_def)
  have "ticks_visit_all Debug vec_slab fixed_encw sample_bids idle_processor"
    by (auto simp: sample_bids_def idle_processor_def submit_bid_def resolve_auctions_def expired_def auction_duration_def
        commit_to_state_machine_def bt_last_def Let_def split: if_splits)
  with auction_outcome [OF run, of "''swap''"] run show ?thesis
    by (simp add: sample_bids_run idle_processor_def auctions_ok_def) (simp add: resolutions_def)
qed

text \<open>
  C2: what a restart recovers, after any run without a log error from any log file.  Let the start
  have read the entries \<open>old\<close> and stopped at \<open>tail\<close>.  The book is that of the old entries and of all
  entries logged in the run.  A restart ends, and its book is that of the old entries and of what
  decoding \<open>tail\<close> followed by the new entries gives.  So it is exactly the same book when the file had no
  torn end; a torn end is not cut off at the start, and the entries of the run are then read
  from the middle.
\<close>

theorem restart_recovers_book:
  assumes codec: "log_codec encw dec" and slab: "order_slab SO"
    and start: "processor_new SO dec True f = Some (Inr mp)" "reads dec (wal_file (wal_open f)) old tail"
    and run: "processor_run prof SO encw inputs mp = Inr mp'" and clean: "wal_errors mp' = 0"
  shows "\<exists>es tail' mp''. reads dec (tail @ concat (map (entry_bytes encw) (concat (map input_entries inputs)))) es tail' \<and>
    processor_new SO dec True (Some (wal_file (mp_wal mp'))) = Some (Inr mp'') \<and>
    replay SO (old @ concat (map input_entries inputs)) (new_book SO) = Inr (mp_book mp') \<and>
    replay SO (old @ es) (new_book SO) = Inr (mp_book mp'') \<and>
    (tail = [] \<longrightarrow> mp_book mp'' = mp_book mp')"
proof -
  let ?new = "concat (map input_entries inputs)" and ?f = "wal_file (wal_open f)"
  have "read_all dec f = Some old"
    using start(2) reads_all [OF start(2)] log_codec.reads_Nil [OF codec] by (cases f) (auto simp: wal_open_def read_all_def dest: reads_fun)
  with start(1) have "logged SO encw ?f old [] mp"
    by (auto simp: processor_new_def panic_simps logged_def wal_open_def)
  from processor_run_logged [OF this run] clean
  have book: "replay SO (old @ ?new) (new_book SO) = Inr (mp_book mp')"
    and bytes: "wal_file (mp_wal mp') = ?f @ concat (map (entry_bytes encw) ?new)"
    by (auto simp: logged_def)
  obtain es tail' where es: "reads dec (tail @ concat (map (entry_bytes encw) ?new)) es tail'"
    using log_codec.reads_total [OF codec] by blast
  have "read_all dec (Some (wal_file (mp_wal mp'))) = Some (old @ es)"
    unfolding bytes by (rule reads_all [OF log_codec.reads_append [OF codec start(2) es]])
  moreover obtain b where "replay SO (old @ es) (new_book SO) = Inr b"
    using order_slab.replay_inv [OF slab] by blast
  moreover have "es = ?new" if "tail = []"
    using reads_fun [OF es] log_codec.reads_entries [OF codec, of ?new] that by simp
  ultimately show ?thesis
    using es book by (fastforce simp: processor_new_def)
qed

definition sample_orders :: "mp_input list" where
  "sample_orders = [Received 10 (\<lambda>_ _. (8192, 8192)) (PlaceOrder 10 1 Ask 100 5),
     Received 20 (\<lambda>_ _. (8192, 8192)) (PlaceOrder 20 2 Bid 120 8),
     Received 30 (\<lambda>_ _. (8192, 8192)) (CancelOrder 20 2)]"

lemma sample_start: "processor_new vec_slab fixed_dec True None = Some (Inr idle_processor)"
  by (simp add: processor_new_def read_all_def replay_def idle_processor_def)

lemma fixed_short: "length (entry_bytes fixed_encw e) < buf_capacity"
  by (cases e) (simp_all add: entry_bytes_def buf_capacity_def)

lemma sample_orders_run:
  "\<exists>mp'. processor_run Release vec_slab fixed_encw sample_orders idle_processor = Inr mp' \<and> wal_errors mp' = 0"
proof -
  have "book_inv vec_slab (mp_book idle_processor)"
    by (simp add: idle_processor_def vos.new_book_inv)
  then obtain mp' where run: "processor_run Release vec_slab fixed_encw sample_orders idle_processor = Inr mp'"
    using vos.processor_safe by blast
  have "clean mp'"
    using run by (rule run_clean [rotated 3])
      (simp_all add: idle_processor_def clean_def wal_open_def sample_orders_def accepting_def
        fixed_short buf_capacity_def fixed_short [unfolded buf_capacity_def])
  with run show ?thesis
    by (auto simp: clean_def)
qed

text \<open>
  A log with one order, and the first byte of another entry whose write was cut short.  After a
  start on it, the cancellation of the order is logged without an error.
\<close>

definition torn_file :: bytes where
  "torn_file = entry_bytes fixed_encw (Place 1 10 Ask 100 5) @ [0]"

definition sample_cancel :: "mp_input list" where
  "sample_cancel = [Received 10 (\<lambda>_ _. (8192, 8192)) (CancelOrder 10 1)]"

lemma torn_reads: "reads fixed_dec (wal_file (wal_open (Some torn_file))) [Place 1 10 Ask 100 5] [0]"
proof -
  have "reads fixed_dec ([] @ [0]) [] [0]"
    by (simp add: reads.stop fixed_dec_def)
  with fixed.reads_append [OF fixed.reads_entries [of "[Place 1 10 Ask 100 5]"]] show ?thesis
    by (simp add: torn_file_def wal_open_def)
qed

lemma torn_start:
  obtains mp where "processor_new vec_slab fixed_dec True (Some torn_file) = Some (Inr mp)" "clean mp" "book_inv vec_slab (mp_book mp)"
proof -
  obtain b where "replay vec_slab [Place 1 10 Ask 100 5] (new_book vec_slab) = Inr b" "book_inv vec_slab b"
    using vos.replay_inv by blast
  with that reads_all [OF torn_reads] show thesis
    by (simp add: processor_new_def clean_def wal_open_def)
qed

lemma cancel_unread: "reads fixed_dec ([0] @ concat (map (entry_bytes fixed_encw) (concat (map input_entries sample_cancel)))) es tail \<Longrightarrow> es = []"
  by (erule reads.cases) (auto simp: sample_cancel_def entry_bytes_def fixed_dec_def)

lemma cancel_books:
  "map_sum id (\<lambda>b. map o_id (a_asks (abs_of vec_slab b))) (replay vec_slab [Place 1 10 Ask 100 5] (new_book vec_slab)) = Inr [1]"
  "map_sum id (\<lambda>b. map o_id (a_asks (abs_of vec_slab b)))
     (replay vec_slab ([Place 1 10 Ask 100 5] @ concat (map input_entries sample_cancel)) (new_book vec_slab)) = Inr []"
  by code_simp+

text \<open>From an empty log the book is recovered; from the torn one the cancelled order is back.\<close>

theorem restart_recovers_book_witness:
  "(\<exists>mp' mp''. processor_run Release vec_slab fixed_encw sample_orders idle_processor = Inr mp' \<and>
      processor_new vec_slab fixed_dec True (Some (wal_file (mp_wal mp'))) = Some (Inr mp'') \<and> mp_book mp'' = mp_book mp') \<and>
   (\<exists>mp mp' mp''. processor_new vec_slab fixed_dec True (Some torn_file) = Some (Inr mp) \<and>
      processor_run Release vec_slab fixed_encw sample_cancel mp = Inr mp' \<and> wal_errors mp' = 0 \<and>
      processor_new vec_slab fixed_dec True (Some (wal_file (mp_wal mp'))) = Some (Inr mp'') \<and>
      a_asks (abs_of vec_slab (mp_book mp')) = [] \<and> map o_id (a_asks (abs_of vec_slab (mp_book mp''))) = [1])"
proof (intro conjI)
  obtain mp' where run: "processor_run Release vec_slab fixed_encw sample_orders idle_processor = Inr mp'"
    "wal_errors mp' = 0"
    using sample_orders_run by blast
  have "reads fixed_dec (wal_file (wal_open None)) [] []"
    by (simp add: wal_open_def fixed.reads_Nil)
  from restart_recovers_book [OF fixed.log_codec_axioms vec_order_slab sample_start this run] run(1)
  show "\<exists>mp' mp''. processor_run Release vec_slab fixed_encw sample_orders idle_processor = Inr mp' \<and>
      processor_new vec_slab fixed_dec True (Some (wal_file (mp_wal mp'))) = Some (Inr mp'') \<and> mp_book mp'' = mp_book mp'"
    by blast
next
  obtain mp where mp: "processor_new vec_slab fixed_dec True (Some torn_file) = Some (Inr mp)" "clean mp" "book_inv vec_slab (mp_book mp)"
    by (rule torn_start)
  obtain mp' where run: "processor_run Release vec_slab fixed_encw sample_cancel mp = Inr mp'"
    using vos.processor_safe [OF mp(3)] by blast
  have "clean mp'"
    using run by (rule run_clean [OF mp(2), rotated 2])
      (simp_all add: sample_cancel_def accepting_def fixed_short buf_capacity_def fixed_short [unfolded buf_capacity_def])
  then have "wal_errors mp' = 0"
    by (simp add: clean_def)
  from restart_recovers_book [OF fixed.log_codec_axioms vec_order_slab mp(1) torn_reads run this] obtain mp'' where
    "processor_new vec_slab fixed_dec True (Some (wal_file (mp_wal mp'))) = Some (Inr mp'')"
    "replay vec_slab ([Place 1 10 Ask 100 5] @ concat (map input_entries sample_cancel)) (new_book vec_slab) = Inr (mp_book mp')"
    "replay vec_slab [Place 1 10 Ask 100 5] (new_book vec_slab) = Inr (mp_book mp'')"
    using cancel_unread by fastforce
  with mp(1) run \<open>wal_errors mp' = 0\<close> cancel_books
  show "\<exists>mp mp' mp''. processor_new vec_slab fixed_dec True (Some torn_file) = Some (Inr mp) \<and>
      processor_run Release vec_slab fixed_encw sample_cancel mp = Inr mp' \<and> wal_errors mp' = 0 \<and>
      processor_new vec_slab fixed_dec True (Some (wal_file (mp_wal mp'))) = Some (Inr mp'') \<and>
      a_asks (abs_of vec_slab (mp_book mp')) = [] \<and> map o_id (a_asks (abs_of vec_slab (mp_book mp''))) = [1]"
    by (intro exI conjI) simp_all
qed

text \<open>
  C20: from any book of the invariant, no sequence of commands and ticks makes a release
  build of the processor panic, whatever happens to the log file.
\<close>

theorem processor_never_panics:
  assumes "order_slab SO" "book_inv SO (mp_book mp)"
  shows "\<exists>mp'. processor_run Release SO encw inputs mp = Inr mp' \<and> book_inv SO (mp_book mp')"
  using assms by (rule order_slab.processor_safe)

theorem processor_never_panics_witness:
  "\<exists>mp'. processor_run Release vec_slab fixed_encw sample_orders idle_processor = Inr mp' \<and> book_inv vec_slab (mp_book mp')"
  by (rule processor_never_panics [OF vec_order_slab]) (simp add: idle_processor_def vos.new_book_inv)

text \<open>Submitting the orders of a bundle one by one as commands of their own.\<close>

fun place_each ::
  "build_profile \<Rightarrow> (Order, 's) slab_ops \<Rightarrow> (LogEntry \<Rightarrow> bytes list) \<Rightarrow> nat \<Rightarrow> (nat \<Rightarrow> nat \<Rightarrow> nat \<times> nat) \<Rightarrow> nat \<Rightarrow>
     BundleRequest list \<Rightarrow> 's MarketProcessor \<Rightarrow> rust_panic + 's MarketProcessor \<times> EngineEvent list" where
  "place_each prof SO encw now io k [] mp = Inr (mp, [])"
| "place_each prof SO encw now io k (r # rs) mp =
     bindR (handle_command prof SO encw now (\<lambda>_. io k)
         (PlaceOrder (br_user_id r) (br_order_id r) (br_side r) (br_price r) (br_quantity r)) mp)
       (\<lambda>(mp', resp). bindR (place_each prof SO encw now io (Suc k) rs mp')
          (\<lambda>(mp'', evs'). Inr (mp'', (case resp of Events evs \<Rightarrow> evs | _ \<Rightarrow> []) @ evs')))"

lemma broadcast_all_simps [simp]:
  "broadcast_all [] mp = mp" "broadcast_all evs' (broadcast_all evs mp) = broadcast_all (evs @ evs') mp"
  by (simp_all add: broadcast_all_def)

lemma place_order_broadcast:
  "place_order SO encw io uid oid side price qty (broadcast_all bs mp) =
     map_sum id (map_prod (broadcast_all bs) id) (place_order SO encw io uid oid side price qty mp)"
  by (simp add: place_order_def log_entry_def broadcast_all_def Let_def bindR_def split: prod.splits sum.splits)

lemma bundle_loop_broadcast:
  "bundle_loop SO encw io k rs (broadcast_all bs mp) =
     map_sum id (map_prod (broadcast_all bs) id) (bundle_loop SO encw io k rs mp)"
proof (induction rs arbitrary: k mp)
  case (Cons r rs)
  then show ?case
    by (cases "place_order SO encw (io k) (br_user_id r) (br_order_id r) (br_side r) (br_price r) (br_quantity r) mp")
       (auto simp: place_order_broadcast bindR_def split: sum.splits prod.splits)
qed simp

lemma place_each_bundle:
  "place_each prof SO encw now io k rs mp =
     map_sum id (\<lambda>(mp', evs). (broadcast_all evs mp', evs)) (bundle_loop SO encw io k rs mp)"
proof (induction rs arbitrary: k mp)
  case (Cons r rs)
  then show ?case
    by (cases "place_order SO encw (io k) (br_user_id r) (br_order_id r) (br_side r) (br_price r) (br_quantity r) mp")
       (auto simp: bundle_loop_broadcast bindR_def split: sum.splits prod.splits)
qed simp

text \<open>
  A bundle is the sequence of its orders: it changes the processor, its log and its
  broadcasts, and answers, exactly as the single orders submitted one after the other with
  nothing in between.
\<close>

lemma bundle_is_sequence:
  "handle_command prof SO encw now io (ExecuteBundle reqs) mp =
     map_sum id (map_prod id Events) (place_each prof SO encw now io 0 reqs mp)"
  by (simp add: place_each_bundle bindR_def split: sum.splits prod.splits)

end
