(* ===== verification/Trading_Service.thy ===== *)
theory Trading_Service
  imports Market_Processor Texts
begin

text \<open>
  The services of the node in front of the market processor
  (\<^verbatim>\<open>zkapp/node/src/main.rs\<close>, \<^verbatim>\<open>zkapp/node/src/settlement.rs\<close>): the gRPC trading service, the
  WebSocket feed and the settlement task.  The messages are those of the protocol file
  \<^verbatim>\<open>trading.proto\<close>.
\<close>

section \<open>Messages\<close>

record PlaceOrderRequest =
  po_user_id :: u64
  po_order_id :: u64
  po_side :: int
  po_price :: u64
  po_quantity :: u64

record TradeExecution =
  te_maker_order_id :: u64
  te_price :: u64
  te_quantity :: u64

record PlaceOrderResponse =
  pr_success :: bool
  pr_message :: string
  pr_fills :: "TradeExecution list"

record ExecutionReport =
  er_success :: bool
  er_message :: string
  er_fills :: "TradeExecution list"

record CancelOrderResponse =
  cr_success :: bool
  remaining_qty :: u64

record DepthResponse =
  dr_bids :: "(u64 \<times> u64) list"
  dr_asks :: "(u64 \<times> u64) list"
  sequence_id :: u64

record IntentBidRequest =
  ib_solver_id :: string
  ib_intent_id :: string
  proposed_output_amount :: u64
  estimated_gas_cost :: u64
  solver_signature :: bytes

record IntentBidResponse =
  ir_accepted :: bool
  ir_message :: string
  ir_auction_id :: string

record CrossChainIntent =
  ci_intent_id :: string
  ci_user_address :: string
  ci_source_chain_id :: u32
  ci_destination_chain_id :: u32
  ci_input_token :: string
  ci_input_amount :: u64
  ci_output_token :: string
  ci_min_output_amount :: u64
  ci_deadline :: u64
  ci_user_signature :: bytes

record MempoolSubscribeRequest =
  ms_solver_id :: string
  ms_interested_chain_ids :: "u32 list"

record IntentEvent =
  ie_event_id :: string
  ie_timestamp :: u64
  ie_intent :: "CrossChainIntent option"

datatype Status = InvalidArgument string | Internal string

text \<open>The side of a request: an enumeration number, where 0 and unknown numbers are unspecified.\<close>

definition proto_side :: "int \<Rightarrow> Side option" where
  "proto_side i = (if i = 1 then Some Bid else if i = 2 then Some Ask else None)"

section \<open>Calls to the processor\<close>

text \<open>
  The processor task: \<open>None\<close> once it has panicked, after which sending to it fails.  A call sends a
  command and waits for the answer; when the processor panics on it, the answer never comes.
\<close>

datatype call_result = SendFailed | NoAnswer | Answer Response

definition engine_call ::
  "build_profile \<Rightarrow> (Order, 's) slab_ops \<Rightarrow> (LogEntry \<Rightarrow> bytes list) \<Rightarrow> nat \<Rightarrow> (nat \<Rightarrow> nat \<Rightarrow> nat \<times> nat) \<Rightarrow> Command \<Rightarrow>
     's MarketProcessor option \<Rightarrow> 's MarketProcessor option \<times> call_result" where
  "engine_call prof SO encw now io cmd nd =
     (case nd of
        None \<Rightarrow> (None, SendFailed)
      | Some mp \<Rightarrow>
          (case handle_command prof SO encw now io cmd mp of
             Inl e \<Rightarrow> (None, NoAnswer)
           | Inr (mp', resp) \<Rightarrow> (Some mp', Answer resp)))"

section \<open>The trading service\<close>

text \<open>The loop over the events: the fills of the order and whether it traded or rests.\<close>

fun order_fills :: "u64 \<Rightarrow> EngineEvent list \<Rightarrow> TradeExecution list" where
  "order_fills oid [] = []"
| "order_fills oid (TradeExecuted m t p q # evs) =
     (if t = oid then \<lparr>te_maker_order_id = m, te_price = p, te_quantity = q\<rparr> # order_fills oid evs else order_fills oid evs)"
| "order_fills oid (_ # evs) = order_fills oid evs"

fun order_success :: "u64 \<Rightarrow> EngineEvent list \<Rightarrow> bool" where
  "order_success oid [] = False"
| "order_success oid (OrderPlaced i _ _ _ _ # evs) = (i = oid \<or> order_success oid evs)"
| "order_success oid (TradeExecuted _ t _ _ # evs) = (t = oid \<or> order_success oid evs)"
| "order_success oid (_ # evs) = order_success oid evs"

definition rpc_place_limit_order ::
  "build_profile \<Rightarrow> (Order, 's) slab_ops \<Rightarrow> (LogEntry \<Rightarrow> bytes list) \<Rightarrow> nat \<Rightarrow> (nat \<Rightarrow> nat \<Rightarrow> nat \<times> nat) \<Rightarrow> PlaceOrderRequest \<Rightarrow>
     's MarketProcessor option \<Rightarrow> 's MarketProcessor option \<times> (Status + PlaceOrderResponse)" where
  "rpc_place_limit_order prof SO encw now io req nd =
     (case proto_side (po_side req) of
        None \<Rightarrow> (nd, Inl (InvalidArgument ''Side is required''))
      | Some side \<Rightarrow>
          (case engine_call prof SO encw now io
                  (PlaceOrder (po_user_id req) (po_order_id req) side (po_price req) (po_quantity req)) nd of
             (nd', Answer (Events evs)) \<Rightarrow>
               let success = order_success (po_order_id req) evs
               in (nd', Inr \<lparr>pr_success = success,
                     pr_message = (if success then ''Order Processed'' else ''Order Rejected''),
                     pr_fills = order_fills (po_order_id req) evs\<rparr>)
           | (nd', SendFailed) \<Rightarrow> (nd', Inl (Internal ''Engine is down''))
           | (nd', _) \<Rightarrow> (nd', Inl (Internal ''Engine failed to respond''))))"

text \<open>The conversion of the orders of a bundle ends at the first one without a side.\<close>

fun bundle_orders :: "PlaceOrderRequest list \<Rightarrow> BundleRequest list option" where
  "bundle_orders [] = Some []"
| "bundle_orders (r # rs) =
     (case proto_side (po_side r) of
        None \<Rightarrow> None
      | Some side \<Rightarrow>
          (case bundle_orders rs of
             None \<Rightarrow> None
           | Some brs \<Rightarrow> Some (\<lparr>br_user_id = po_user_id r, br_order_id = po_order_id r, br_side = side,
               br_price = po_price r, br_quantity = po_quantity r\<rparr> # brs)))"

fun bundle_fills :: "EngineEvent list \<Rightarrow> TradeExecution list" where
  "bundle_fills [] = []"
| "bundle_fills (TradeExecuted m _ p q # evs) = \<lparr>te_maker_order_id = m, te_price = p, te_quantity = q\<rparr> # bundle_fills evs"
| "bundle_fills (_ # evs) = bundle_fills evs"

definition rpc_execute_solver_bundle ::
  "build_profile \<Rightarrow> (Order, 's) slab_ops \<Rightarrow> (LogEntry \<Rightarrow> bytes list) \<Rightarrow> nat \<Rightarrow> (nat \<Rightarrow> nat \<Rightarrow> nat \<times> nat) \<Rightarrow>
     PlaceOrderRequest list \<Rightarrow> 's MarketProcessor option \<Rightarrow> 's MarketProcessor option \<times> (Status + ExecutionReport)" where
  "rpc_execute_solver_bundle prof SO encw now io reqs nd =
     (case bundle_orders reqs of
        None \<Rightarrow> (nd, Inl (InvalidArgument ''Side Invalid''))
      | Some brs \<Rightarrow>
          (case engine_call prof SO encw now io (ExecuteBundle brs) nd of
             (nd', Answer (Events evs)) \<Rightarrow>
               (nd', Inr \<lparr>er_success = True, er_message = ''Bundle Executed. Total Events: '' @ show_nat (length evs),
                          er_fills = bundle_fills evs\<rparr>)
           | (nd', SendFailed) \<Rightarrow> (nd', Inl (Internal ''Engine is down''))
           | (nd', _) \<Rightarrow> (nd', Inl (Internal ''Engine faield to respond''))))"

fun is_cancelled :: "EngineEvent \<Rightarrow> bool" where
  "is_cancelled (OrderCancelled _) = True"
| "is_cancelled _ = False"

definition rpc_cancel_order ::
  "build_profile \<Rightarrow> (Order, 's) slab_ops \<Rightarrow> (LogEntry \<Rightarrow> bytes list) \<Rightarrow> nat \<Rightarrow> (nat \<Rightarrow> nat \<Rightarrow> nat \<times> nat) \<Rightarrow> u64 \<Rightarrow> u64 \<Rightarrow>
     's MarketProcessor option \<Rightarrow> 's MarketProcessor option \<times> (Status + CancelOrderResponse)" where
  "rpc_cancel_order prof SO encw now io uid oid nd =
     (case engine_call prof SO encw now io (CancelOrder uid oid) nd of
        (nd', Answer (Events evs)) \<Rightarrow> (nd', Inr \<lparr>cr_success = list_ex is_cancelled evs, remaining_qty = 0\<rparr>)
      | (nd', SendFailed) \<Rightarrow> (nd', Inl (Internal ''Engine down''))
      | (nd', _) \<Rightarrow> (nd', Inl (Internal ''No response'')))"

definition rpc_get_order_book_depth ::
  "build_profile \<Rightarrow> (Order, 's) slab_ops \<Rightarrow> (LogEntry \<Rightarrow> bytes list) \<Rightarrow> nat \<Rightarrow> (nat \<Rightarrow> nat \<Rightarrow> nat \<times> nat) \<Rightarrow> u32 \<Rightarrow>
     's MarketProcessor option \<Rightarrow> 's MarketProcessor option \<times> (Status + DepthResponse)" where
  "rpc_get_order_book_depth prof SO encw now io lim nd =
     (let limit = (if lim = 0 then 10 else unat lim)
      in case engine_call prof SO encw now io (GetDepth limit) nd of
           (nd', Answer (Depth as bs)) \<Rightarrow>
             (nd', Inr \<lparr>dr_bids = map (\<lambda>l. (l_price l, l_quantity l)) bs, dr_asks = map (\<lambda>l. (l_price l, l_quantity l)) as,
                        sequence_id = 0\<rparr>)
         | (nd', SendFailed) \<Rightarrow> (nd', Inl (Internal ''Engine down''))
         | (nd', _) \<Rightarrow> (nd', Inl (Internal ''No response'')))"

text \<open>A bid is queued and acknowledged without waiting for the processor.\<close>

definition rpc_submit_intent_bid ::
  "build_profile \<Rightarrow> (Order, 's) slab_ops \<Rightarrow> (LogEntry \<Rightarrow> bytes list) \<Rightarrow> nat \<Rightarrow> (nat \<Rightarrow> nat \<Rightarrow> nat \<times> nat) \<Rightarrow> IntentBidRequest \<Rightarrow>
     's MarketProcessor option \<Rightarrow> 's MarketProcessor option \<times> (Status + IntentBidResponse)" where
  "rpc_submit_intent_bid prof SO encw now io req nd =
     (if solver_signature req = [] then (nd, Inl (InvalidArgument ''Signature required''))
      else case engine_call prof SO encw now io
              (SubmitBid (ib_solver_id req) (ib_intent_id req) (proposed_output_amount req) (estimated_gas_cost req)
                 (solver_signature req)) nd of
        (nd', SendFailed) \<Rightarrow> (nd', Inl (Internal ''Engine is down''))
      | (nd', _) \<Rightarrow> (nd', Inr \<lparr>ir_accepted = True, ir_message = ''Bid queued for OFA evaluation'',
                                ir_auction_id = ''auc-'' @ ib_intent_id req\<rparr>))"

text \<open>
  The mempool stream: the sending end of its channel is dropped at once, so it ends without an item.
\<close>

definition rpc_subscribe_intent_mempool :: "MempoolSubscribeRequest \<Rightarrow> Status + IntentEvent list" where
  "rpc_subscribe_intent_mempool req = Inr []"

section \<open>The WebSocket feed\<close>

fun side_text :: "Side \<Rightarrow> string" where
  "side_text Bid = ''Bid''"
| "side_text Ask = ''Ask''"

fun ws_json :: "EngineEvent \<Rightarrow> json_value" where
  "ws_json (TradeExecuted m t p q) = JObj [(''type'', JStr ''TRADE''), (''maker_id'', JU64 m), (''taker_id'', JU64 t),
     (''price'', JU64 p), (''quantity'', JU64 q)]"
| "ws_json (OrderPlaced i _ p q s) = JObj [(''type'', JStr ''ORDER_PLACED''), (''id'', JU64 i), (''price'', JU64 p),
     (''quantity'', JU64 q), (''side'', JStr (side_text s))]"
| "ws_json (OrderCancelled i) = JObj [(''type'', JStr ''ORDER_CANCELLED''), (''id'', JU64 i)]"
| "ws_json (IntentResolved i s a) = JObj [(''type'', JStr ''INTENT_RESOLVED''), (''intent_id'', JStr i),
     (''winning_solver'', JStr s), (''winning_amount'', JU64 a)]"

text \<open>
  One subscriber: the results of receiving from the broadcast channel in turn, where a
  subscriber that has fallen behind gets an error, and whether the socket accepts each send.
  The result lists the messages sent.
\<close>

datatype recv_result = Received_event EngineEvent | Lagged | Closed

fun handle_socket :: "(json_value \<Rightarrow> string option) \<Rightarrow> (recv_result \<times> bool) list \<Rightarrow> string list" where
  "handle_socket to_text [] = []"
| "handle_socket to_text ((Received_event ev, ok) # rs) =
     (case to_text (ws_json ev) of
        None \<Rightarrow> handle_socket to_text rs
      | Some msg \<Rightarrow> if ok then msg # handle_socket to_text rs else [])"
| "handle_socket to_text ((Lagged, _) # rs) = []"
| "handle_socket to_text ((Closed, _) # rs) = []"

section \<open>Settlement\<close>

record SettlementBatch =
  new_state_root :: bytes
  sb_proof :: bytes
  resolved_intent_ids :: "bytes list"

text \<open>\<open>parse32\<close> reads the hexadecimal form of 32 bytes; an intent id that is none becomes zero.\<close>

fun settlement_batch :: "(string \<Rightarrow> bytes option) \<Rightarrow> EngineEvent \<Rightarrow> SettlementBatch option" where
  "settlement_batch parse32 (IntentResolved intent _ _) =
     Some \<lparr>new_state_root = replicate 32 0, sb_proof = [1, 2, 3, 4, 5],
           resolved_intent_ids = [case parse32 intent of Some bs \<Rightarrow> bs | None \<Rightarrow> replicate 32 0]\<rparr>"
| "settlement_batch parse32 _ = None"

text \<open>
  The calls of \<^verbatim>\<open>updateStateWithIntents\<close> the chain takes; a batch that cannot be sent, or whose
  receipt fails or is reverted, is only reported.
\<close>

datatype send_outcome = SendError | ReceiptError | Reverted | Settled

definition submit_zk_batch :: "send_outcome \<Rightarrow> SettlementBatch \<Rightarrow> SettlementBatch list \<Rightarrow> SettlementBatch list" where
  "submit_zk_batch out b l1 = (if out = Settled then l1 @ [b] else l1)"

fun settlement_task ::
  "(string \<Rightarrow> bytes option) \<Rightarrow> (EngineEvent \<times> send_outcome) list \<Rightarrow> SettlementBatch list \<Rightarrow> SettlementBatch list" where
  "settlement_task parse32 [] l1 = l1"
| "settlement_task parse32 ((ev, out) # evs) l1 =
     (case settlement_batch parse32 ev of
        None \<Rightarrow> settlement_task parse32 evs l1
      | Some b \<Rightarrow> settlement_task parse32 evs (submit_zk_batch out b l1))"

section \<open>What a placed order is answered\<close>

lemma order_fills_all:
  assumes "\<forall>ev \<in> set evs. case ev of TradeExecuted _ t _ _ \<Rightarrow> t = oid | _ \<Rightarrow> True"
  shows "order_fills oid evs = bundle_fills evs"
  using assms by (induction oid evs rule: order_fills.induct) auto

lemma bundle_fills_traded: "sum_list (map (\<lambda>f. unat (te_quantity f)) (bundle_fills evs)) = traded evs"
  by (induction evs rule: bundle_fills.induct) (simp_all add: traded_def)

lemma order_success_volume:
  assumes "\<forall>ev \<in> set evs. case ev of TradeExecuted _ t _ q \<Rightarrow> t = oid \<and> 0 < q | OrderPlaced i _ _ q _ \<Rightarrow> i = oid \<and> 0 < q | _ \<Rightarrow> True"
  shows "order_success oid evs \<longleftrightarrow> 0 < traded evs + rested evs"
  using assms
  by (induction oid evs rule: order_success.induct) (auto simp: traded_def rested_def unat_gt_0 word_gt_0)

lemma rpc_place_answer:
  assumes "order_slab SO" "book_inv SO (mp_book mp)" "proto_side (po_side req) = Some side"
  shows "\<exists>mp' evs resp. rpc_place_limit_order prof SO encw now io req (Some mp) = (Some mp', Inr resp) \<and>
    book_inv SO (mp_book mp') \<and>
    spec_place (po_order_id req) (po_user_id req) side (po_price req) (po_quantity req) (abs_of SO (mp_book mp)) =
      (abs_of SO (mp_book mp'), evs) \<and>
    pr_fills resp = bundle_fills evs \<and>
    sum_list (map (\<lambda>f. unat (te_quantity f)) (pr_fills resp)) + rested evs = unat (po_quantity req) \<and>
    pr_success resp = (0 < po_quantity req)"
proof -
  let ?oid = "po_order_id req" and ?uid = "po_user_id req" and ?price = "po_price req" and ?qty = "po_quantity req"
  obtain b' evs where place: "place_limit_order SO ?oid ?uid side ?price ?qty (mp_book mp) = Inr (b', evs)"
    "book_inv SO b'" "spec_place ?oid ?uid side ?price ?qty (abs_of SO (mp_book mp)) = (abs_of SO b', evs)"
    using order_slab.place_refines [OF assms(1,2)] by blast
  have ev: "case e of TradeExecuted _ t _ q \<Rightarrow> t = ?oid \<and> 0 < q | OrderPlaced i _ _ q _ \<Rightarrow> i = ?oid \<and> 0 < q | _ \<Rightarrow> True"
    if "e \<in> set evs" for e
    using order_slab.place_events [OF assms(1,2) place(1) that] by (auto simp: fair_trade_def split: EngineEvent.splits)
  have fills: "order_fills ?oid evs = bundle_fills evs"
    by (intro order_fills_all ballI) (use ev in \<open>fastforce split: EngineEvent.splits\<close>)
  have sum: "traded evs + rested evs = unat ?qty"
    using order_slab.place_conserves(1) [OF assms(1,2) place(1)] .
  then have success: "order_success ?oid evs \<longleftrightarrow> 0 < ?qty"
    using order_success_volume [of evs ?oid] ev by (auto simp: unat_gt_0 word_gt_0)
  show ?thesis
    using assms(3) place fills sum success
    by (simp add: rpc_place_limit_order_def engine_call_def place_order_def broadcast_all_def Let_def bundle_fills_traded)
qed

text \<open>
  C12: The answer of the trading service to an order with a side: the processor stays up, the
  book changes and trades as the price-time priority specification says, the fills reported are
  exactly these trades, what was filled and what came to rest add up to the quantity asked for,
  and the order is reported as processed exactly when that quantity is not zero.
\<close>

theorem rpc_place_exact:
  assumes "order_slab SO" "book_inv SO (mp_book mp)" "proto_side (po_side req) = Some side"
  shows "\<exists>mp' evs resp. rpc_place_limit_order prof SO encw now io req (Some mp) = (Some mp', Inr resp) \<and>
    book_inv SO (mp_book mp') \<and>
    spec_place (po_order_id req) (po_user_id req) side (po_price req) (po_quantity req) (abs_of SO (mp_book mp)) =
      (abs_of SO (mp_book mp'), evs) \<and>
    pr_fills resp = bundle_fills evs \<and>
    sum_list (map (\<lambda>f. unat (te_quantity f)) (pr_fills resp)) + rested evs = unat (po_quantity req) \<and>
    pr_success resp = (0 < po_quantity req)"
  by (rule rpc_place_answer [OF assms])

theorem rpc_place_exact_witness:
  "\<exists>mp' resp. rpc_place_limit_order Debug vec_slab fixed_encw 0 (\<lambda>_ _. (8192, 0))
       \<lparr>po_user_id = 7, po_order_id = 1, po_side = 1, po_price = 10, po_quantity = 5\<rparr> (Some idle_processor) = (Some mp', Inr resp) \<and>
     pr_success resp"
proof -
  have "book_inv vec_slab (mp_book idle_processor)"
    by (simp add: idle_processor_def vos.new_book_inv)
  then show ?thesis
    using rpc_place_exact [OF vec_order_slab, of idle_processor
        "\<lparr>po_user_id = 7, po_order_id = 1, po_side = 1, po_price = 10, po_quantity = 5\<rparr>" Bid Debug fixed_encw 0 "\<lambda>_ _. (8192, 0)"]
    by (auto simp: proto_side_def)
qed

section \<open>What is settled\<close>

lemma settlement_task_settled:
  "settlement_task parse32 evs l1 =
     l1 @ List.map_filter (\<lambda>(ev, out). if out = Settled then settlement_batch parse32 ev else None) evs"
  by (induction parse32 evs l1 rule: settlement_task.induct)
    (auto simp: map_filter_simps submit_zk_batch_def split: option.split)

section \<open>Sessions\<close>

text \<open>A call of the service, with its error status if it has one.\<close>

datatype rpc_call =
    RpcPlace PlaceOrderRequest
  | RpcBundle "PlaceOrderRequest list"
  | RpcCancel u64 u64
  | RpcDepth u32
  | RpcBid IntentBidRequest

definition status_of :: "'n \<times> (Status + 'r) \<Rightarrow> 'n \<times> Status option" where
  "status_of r = (fst r, case snd r of Inl e \<Rightarrow> Some e | Inr _ \<Rightarrow> None)"

fun rpc_step ::
  "build_profile \<Rightarrow> (Order, 's) slab_ops \<Rightarrow> (LogEntry \<Rightarrow> bytes list) \<Rightarrow> nat \<Rightarrow> (nat \<Rightarrow> nat \<Rightarrow> nat \<times> nat) \<Rightarrow> rpc_call \<Rightarrow>
     's MarketProcessor option \<Rightarrow> 's MarketProcessor option \<times> Status option" where
  "rpc_step prof SO encw now io (RpcPlace req) nd = status_of (rpc_place_limit_order prof SO encw now io req nd)"
| "rpc_step prof SO encw now io (RpcBundle reqs) nd = status_of (rpc_execute_solver_bundle prof SO encw now io reqs nd)"
| "rpc_step prof SO encw now io (RpcCancel uid oid) nd = status_of (rpc_cancel_order prof SO encw now io uid oid nd)"
| "rpc_step prof SO encw now io (RpcDepth lim) nd = status_of (rpc_get_order_book_depth prof SO encw now io lim nd)"
| "rpc_step prof SO encw now io (RpcBid req) nd = status_of (rpc_submit_intent_bid prof SO encw now io req nd)"

definition call_ok :: "rpc_call \<Rightarrow> bool" where
  "call_ok c \<longleftrightarrow>
     (case c of
        RpcPlace req \<Rightarrow> proto_side (po_side req) \<noteq> None
      | RpcBundle reqs \<Rightarrow> \<forall>req \<in> set reqs. proto_side (po_side req) \<noteq> None
      | RpcBid req \<Rightarrow> solver_signature req \<noteq> []
      | _ \<Rightarrow> True)"

lemma bundle_orders_None: "bundle_orders reqs = None \<longleftrightarrow> (\<exists>req \<in> set reqs. proto_side (po_side req) = None)"
  by (induction reqs) (auto split: option.split)

text \<open>The answers of the processor have the form the service expects.\<close>

lemma response_form:
  assumes "handle_command prof SO encw now io cmd mp = Inr (mp', resp)"
  shows "case cmd of GetDepth _ \<Rightarrow> \<exists>as bs. resp = Depth as bs | SubmitBid _ _ _ _ _ \<Rightarrow> resp = NoResponse | _ \<Rightarrow> \<exists>evs. resp = Events evs"
  using assms by (cases cmd) (auto simp: panic_simps Let_def)

text \<open>
  In a release build the service stays up: every call leaves the processor running with a
  well-formed book, and is refused exactly when a side or a signature is missing.
\<close>

lemma rpc_step_up:
  assumes "order_slab SO" "book_inv SO (mp_book mp)"
  shows "\<exists>mp' st. rpc_step Release SO encw now io c (Some mp) = (Some mp', st) \<and> book_inv SO (mp_book mp') \<and>
    (st = None \<longleftrightarrow> call_ok c) \<and> (\<forall>e. st = Some e \<longrightarrow> mp' = mp \<and> (\<exists>msg. e = InvalidArgument msg))"
proof -
  have call: "\<exists>mp' resp. engine_call Release SO encw now io cmd (Some mp) = (Some mp', Answer resp) \<and> book_inv SO (mp_book mp') \<and>
      handle_command Release SO encw now io cmd mp = Inr (mp', resp)" for cmd
    using order_slab.handle_command_safe [OF assms, of encw now io cmd] by (auto simp: engine_call_def)
  show ?thesis
  proof (cases c)
    case (RpcPlace req)
    show ?thesis
    proof (cases "proto_side (po_side req)")
      case (Some side)
      with RpcPlace call [of "PlaceOrder (po_user_id req) (po_order_id req) side (po_price req) (po_quantity req)"] response_form
      show ?thesis
        by (fastforce simp: rpc_place_limit_order_def status_of_def call_ok_def Let_def)
    qed (use RpcPlace assms(2) in \<open>auto simp: rpc_place_limit_order_def status_of_def call_ok_def\<close>)
  next
    case (RpcBundle reqs)
    show ?thesis
    proof (cases "bundle_orders reqs")
      case (Some brs)
      moreover from this have "call_ok c"
        using bundle_orders_None [of reqs] by (auto simp: RpcBundle call_ok_def)
      ultimately show ?thesis
        using RpcBundle call [of "ExecuteBundle brs"] response_form
        by (fastforce simp: rpc_execute_solver_bundle_def status_of_def)
    qed (use RpcBundle assms(2) bundle_orders_None [of reqs] in \<open>auto simp: rpc_execute_solver_bundle_def status_of_def call_ok_def\<close>)
  next
    case (RpcCancel uid oid)
    with call [of "CancelOrder uid oid"] response_form show ?thesis
      by (fastforce simp: rpc_cancel_order_def status_of_def call_ok_def)
  next
    case (RpcDepth lim)
    with call [of "GetDepth (if lim = 0 then 10 else unat lim)"] response_form show ?thesis
      by (fastforce simp: rpc_get_order_book_depth_def status_of_def call_ok_def Let_def)
  next
    case (RpcBid req)
    with call [of "SubmitBid (ib_solver_id req) (ib_intent_id req) (proposed_output_amount req) (estimated_gas_cost req) (solver_signature req)"] assms(2)
    show ?thesis
      by (auto simp: rpc_submit_intent_bid_def status_of_def call_ok_def)
  qed
qed

end
