(* ===== verification/Rollup.thy ===== *)
theory Rollup
  imports Trading_Service
begin

text \<open>
  The settlement contract on the first chain (\<^verbatim>\<open>contracts/src/EviceRollup.sol\<close>), the verifier contract
  that the prover generates (\<^verbatim>\<open>contracts/src/EviceVerifier.sol\<close>) and the settlement task of the node
  in front of them.  A call either reverts, and then changes nothing, or returns the new state
  and the events it emits.  The base contracts of the OpenZeppelin library are an argument, and
  so is the code at the address of the verifier; the reentrancy guard never reverts, because
  the contract makes no call that may change a state.
\<close>

section \<open>The contract\<close>

datatype IntentStatus = NONE | LOCKED | RESOLVED

record 'g oz_ops =
  oz_owner :: "'g \<Rightarrow> evm_address"
  oz_paused :: "'g \<Rightarrow> bool"
  oz_pause :: "'g \<Rightarrow> 'g option"
  oz_unpause :: "'g \<Rightarrow> 'g option"
  oz_transfer_ownership :: "evm_address \<Rightarrow> 'g \<Rightarrow> 'g option"

record 'g Rollup =
  oz_state :: 'g
  SEQUENCER :: evm_address
  currentStateRoot :: bytes
  verifier :: evm_address
  currentBatchId :: u256
  intentRegistry :: "bytes \<Rightarrow> IntentStatus"
  eth_balance :: nat

datatype RollupEvent =
    IntentLocked bytes evm_address u256
  | IntentSettled bytes evm_address
  | StateUpdated u256 bytes bytes
  | VerifierUpdated evm_address

datatype RollupError =
    UnauthorizedSequencer | InvalidProof | InvalidAmount | NotOwner | EnforcedPause | OzReverted | VerifierReverted | NotPayable

type_synonym 'g rollup_result = "RollupError + 'g Rollup \<times> RollupEvent list"

text \<open>The code at an address, as far as the contract calls it; a call may revert.\<close>

type_synonym contracts = "evm_address \<Rightarrow> (bytes \<Rightarrow> bytes \<Rightarrow> bytes \<Rightarrow> bool option) option"

definition rollup_new :: "'g \<Rightarrow> evm_address \<Rightarrow> bytes \<Rightarrow> 'g Rollup" where
  "rollup_new g seq root = \<lparr>oz_state = g, SEQUENCER = seq, currentStateRoot = root, verifier = 0, currentBatchId = 0,
     intentRegistry = (\<lambda>_. NONE), eth_balance = 0\<rparr>"

definition pauseSystem :: "'g oz_ops \<Rightarrow> evm_address \<Rightarrow> 'g Rollup \<Rightarrow> 'g rollup_result" where
  "pauseSystem G sender r =
     (if sender \<noteq> oz_owner G (oz_state r) then Inl NotOwner
      else case oz_pause G (oz_state r) of None \<Rightarrow> Inl OzReverted | Some g \<Rightarrow> Inr (r\<lparr>oz_state := g\<rparr>, []))"

definition unpauseSystem :: "'g oz_ops \<Rightarrow> evm_address \<Rightarrow> 'g Rollup \<Rightarrow> 'g rollup_result" where
  "unpauseSystem G sender r =
     (if sender \<noteq> oz_owner G (oz_state r) then Inl NotOwner
      else case oz_unpause G (oz_state r) of None \<Rightarrow> Inl OzReverted | Some g \<Rightarrow> Inr (r\<lparr>oz_state := g\<rparr>, []))"

definition depositIntent :: "'g oz_ops \<Rightarrow> evm_address \<Rightarrow> u256 \<Rightarrow> bytes \<Rightarrow> 'g Rollup \<Rightarrow> 'g rollup_result" where
  "depositIntent G sender amount i r =
     (if oz_paused G (oz_state r) then Inl EnforcedPause
      else if amount = 0 then Inl InvalidAmount
      else Inr (r\<lparr>intentRegistry := (intentRegistry r)(i := LOCKED), eth_balance := eth_balance r + unat amount\<rparr>,
                [IntentLocked i sender amount]))"

definition setVerifier :: "evm_address \<Rightarrow> evm_address \<Rightarrow> 'g Rollup \<Rightarrow> 'g rollup_result" where
  "setVerifier sender a r =
     (if sender \<noteq> SEQUENCER r then Inl UnauthorizedSequencer else Inr (r\<lparr>verifier := a\<rparr>, [VerifierUpdated a]))"

fun settle_intents :: "bytes list \<Rightarrow> 'g Rollup \<Rightarrow> 'g Rollup \<times> RollupEvent list" where
  "settle_intents [] r = (r, [])"
| "settle_intents (i # is) r =
     (if intentRegistry r i = LOCKED
      then let (r', evs) = settle_intents is (r\<lparr>intentRegistry := (intentRegistry r)(i := RESOLVED)\<rparr>)
           in (r', IntentSettled i (SEQUENCER r) # evs)
      else settle_intents is r)"

definition verify_with :: "contracts \<Rightarrow> 'g Rollup \<Rightarrow> bytes \<Rightarrow> bytes \<Rightarrow> bool option" where
  "verify_with C r root proof =
     (case C (verifier r) of None \<Rightarrow> None | Some code \<Rightarrow> code (currentStateRoot r) root proof)"

definition updateStateWithIntents ::
  "'g oz_ops \<Rightarrow> contracts \<Rightarrow> evm_address \<Rightarrow> bytes \<Rightarrow> bytes \<Rightarrow> bytes list \<Rightarrow> 'g Rollup \<Rightarrow> 'g rollup_result" where
  "updateStateWithIntents G C sender root proof is r =
     (if sender \<noteq> SEQUENCER r then Inl UnauthorizedSequencer
      else if oz_paused G (oz_state r) then Inl EnforcedPause
      else case verify_with C r root proof of
        None \<Rightarrow> Inl VerifierReverted
      | Some False \<Rightarrow> Inl InvalidProof
      | Some True \<Rightarrow>
          let (r1, evs) = settle_intents is r;
              r2 = r1\<lparr>currentStateRoot := root, currentBatchId := currentBatchId r1 + 1\<rparr>
          in Inr (r2, evs @ [StateUpdated (currentBatchId r2) (currentStateRoot r) root]))"

text \<open>The generated verifier.\<close>

definition verifyProof :: "bytes \<Rightarrow> bytes \<Rightarrow> bytes \<Rightarrow> bool option" where
  "verifyProof old new proof =
     (if \<not> length proof > 0 then None
      else if \<not> old \<noteq> new then None
      else Some True)"

section \<open>Histories\<close>

datatype rollup_call =
    PauseSystem
  | UnpauseSystem
  | DepositIntent bytes
  | SetVerifier evm_address
  | UpdateState bytes bytes "bytes list"
  | TransferOwnership evm_address

record rollup_tx =
  tx_sender :: evm_address
  tx_value :: u256
  tx_call :: rollup_call

text \<open>Only a deposit may carry a value.\<close>

definition rollup_step :: "'g oz_ops \<Rightarrow> contracts \<Rightarrow> rollup_tx \<Rightarrow> 'g Rollup \<Rightarrow> 'g rollup_result" where
  "rollup_step G C t r =
     (case tx_call t of
        DepositIntent i \<Rightarrow> depositIntent G (tx_sender t) (tx_value t) i r
      | other \<Rightarrow>
          if tx_value t \<noteq> 0 then Inl NotPayable
          else case other of
            UnpauseSystem \<Rightarrow> unpauseSystem G (tx_sender t) r
          | SetVerifier a \<Rightarrow> setVerifier (tx_sender t) a r
          | UpdateState root proof is \<Rightarrow> updateStateWithIntents G C (tx_sender t) root proof is r
          | TransferOwnership a \<Rightarrow>
              (if tx_sender t \<noteq> oz_owner G (oz_state r) then Inl NotOwner
               else case oz_transfer_ownership G a (oz_state r) of
                 None \<Rightarrow> Inl OzReverted
               | Some g \<Rightarrow> Inr (r\<lparr>oz_state := g\<rparr>, []))
          | _ \<Rightarrow> pauseSystem G (tx_sender t) r)"

fun rollup_run :: "'g oz_ops \<Rightarrow> contracts \<Rightarrow> rollup_tx list \<Rightarrow> 'g Rollup \<Rightarrow> 'g Rollup \<times> RollupEvent list" where
  "rollup_run G C [] r = (r, [])"
| "rollup_run G C (t # ts) r =
     (case rollup_step G C t r of
        Inl _ \<Rightarrow> rollup_run G C ts r
      | Inr (r1, evs) \<Rightarrow> let (r2, evs') = rollup_run G C ts r1 in (r2, evs @ evs'))"

text \<open>What a reader of the events knows: the state of the intents, the root, the number of batches and the deposits.\<close>

record rollup_view =
  vw_registry :: "bytes \<Rightarrow> IntentStatus"
  vw_root :: bytes
  vw_batch :: u256
  vw_deposits :: nat

fun view_event :: "RollupEvent \<Rightarrow> rollup_view \<Rightarrow> rollup_view" where
  "view_event (IntentLocked i _ amount) v =
     v\<lparr>vw_registry := (vw_registry v)(i := LOCKED), vw_deposits := vw_deposits v + unat amount\<rparr>"
| "view_event (IntentSettled i _) v = v\<lparr>vw_registry := (vw_registry v)(i := RESOLVED)\<rparr>"
| "view_event (StateUpdated n _ root) v = v\<lparr>vw_root := root, vw_batch := n\<rparr>"
| "view_event (VerifierUpdated _) v = v"

definition rollup_view :: "'g Rollup \<Rightarrow> rollup_view" where
  "rollup_view r = \<lparr>vw_registry = intentRegistry r, vw_root = currentStateRoot r, vw_batch = currentBatchId r, vw_deposits = eth_balance r\<rparr>"

text \<open>An event is justified in a state: who may cause it, and under which condition.\<close>

fun justified :: "'g oz_ops \<Rightarrow> contracts \<Rightarrow> rollup_tx \<Rightarrow> 'g Rollup \<Rightarrow> RollupEvent \<Rightarrow> bool" where
  "justified G C t r (IntentLocked i user amount) \<longleftrightarrow>
     tx_call t = DepositIntent i \<and> user = tx_sender t \<and> amount = tx_value t \<and> 0 < amount \<and> \<not> oz_paused G (oz_state r)"
| "justified G C t r (IntentSettled i s) \<longleftrightarrow>
     (\<exists>root proof is. tx_call t = UpdateState root proof is \<and> i \<in> set is \<and> intentRegistry r i = LOCKED \<and>
        tx_sender t = SEQUENCER r \<and> \<not> oz_paused G (oz_state r) \<and> verify_with C r root proof = Some True)"
| "justified G C t r (StateUpdated n old root) \<longleftrightarrow>
     (\<exists>proof is. tx_call t = UpdateState root proof is \<and> old = currentStateRoot r \<and> n = currentBatchId r + 1 \<and>
        tx_sender t = SEQUENCER r \<and> \<not> oz_paused G (oz_state r) \<and> verify_with C r root proof = Some True)"
| "justified G C t r (VerifierUpdated a) \<longleftrightarrow> tx_call t = SetVerifier a \<and> tx_sender t = SEQUENCER r"

lemma settle_intents_kept:
  assumes "settle_intents ids r = (r', evs)"
  shows "(\<exists>reg. r' = r\<lparr>intentRegistry := reg\<rparr>) \<and> rollup_view r' = fold view_event evs (rollup_view r) \<and>
    (\<forall>e \<in> set evs. \<exists>i \<in> set ids. e = IntentSettled i (SEQUENCER r) \<and> intentRegistry r i = LOCKED)"
  using assms
proof (induction ids arbitrary: r evs)
  case Nil
  then show ?case
    by (auto intro: exI [of _ "intentRegistry r"])
next
  case (Cons i ids)
  show ?case
  proof (cases "intentRegistry r i = LOCKED")
    case True
    let ?r = "r\<lparr>intentRegistry := (intentRegistry r)(i := RESOLVED)\<rparr>"
    from Cons.prems True obtain evs' where s: "settle_intents ids ?r = (r', evs')" "evs = IntentSettled i (SEQUENCER r) # evs'"
      by (auto split: prod.splits)
    have "rollup_view ?r = view_event (IntentSettled i (SEQUENCER r)) (rollup_view r)"
      by (simp add: rollup_view_def)
    with Cons.IH [OF s(1)] s(2) True show ?thesis
      by (auto split: if_splits)
  next
    case False
    with Cons.prems Cons.IH [of r evs] show ?thesis
      by auto
  qed
qed

lemma settle_intents_keeps:
  assumes "settle_intents ids r = (r', evs)"
  shows "SEQUENCER r' = SEQUENCER r" "currentBatchId r' = currentBatchId r"
    "rollup_view r' = fold view_event evs (rollup_view r)"
    "e \<in> set evs \<Longrightarrow> \<exists>i \<in> set ids. e = IntentSettled i (SEQUENCER r) \<and> intentRegistry r i = LOCKED"
  using settle_intents_kept [OF assms] by auto

lemma rollup_step_view:
  assumes "rollup_step G C t r = Inr (r', evs)"
  shows "SEQUENCER r' = SEQUENCER r" "rollup_view r' = fold view_event evs (rollup_view r)"
    "e \<in> set evs \<Longrightarrow> justified G C t r e"
proof -
  have "SEQUENCER r' = SEQUENCER r \<and> rollup_view r' = fold view_event evs (rollup_view r) \<and> (\<forall>e \<in> set evs. justified G C t r e)"
  proof (cases "tx_call t")
    case (UpdateState root pf ids)
    obtain r1 evs1 where s: "settle_intents ids r = (r1, evs1)"
      by (cases "settle_intents ids r")
    note k = settle_intents_keeps [OF s]
    from assms UpdateState s have up: "tx_sender t = SEQUENCER r" "\<not> oz_paused G (oz_state r)" "verify_with C r root pf = Some True"
      "r' = r1\<lparr>currentStateRoot := root, currentBatchId := currentBatchId r1 + 1\<rparr>"
      "evs = evs1 @ [StateUpdated (currentBatchId r1 + 1) (currentStateRoot r) root]"
      by (auto simp: rollup_step_def updateStateWithIntents_def split: if_splits option.splits bool.splits)
    have "rollup_view r' = (fold view_event evs1 (rollup_view r))\<lparr>vw_root := root, vw_batch := currentBatchId r1 + 1\<rparr>"
      unfolding k(3) [symmetric] by (simp add: up(4) rollup_view_def)
    moreover have "justified G C t r e" if "e \<in> set evs1" for e
      using k(4) [OF that] UpdateState up(1-3) by auto
    ultimately show ?thesis
      using k UpdateState up by auto
  qed (use assms in \<open>auto simp: rollup_step_def rollup_view_def pauseSystem_def unpauseSystem_def depositIntent_def setVerifier_def
      word_neq_0_conv split: if_splits option.splits\<close>)
  then show "SEQUENCER r' = SEQUENCER r" "rollup_view r' = fold view_event evs (rollup_view r)"
    "e \<in> set evs \<Longrightarrow> justified G C t r e"
    by auto
qed

lemma rollup_run_view:
  assumes "rollup_run G C ts r = (r', evs)"
  shows "SEQUENCER r' = SEQUENCER r \<and> rollup_view r' = fold view_event evs (rollup_view r)"
  using assms
proof (induction ts arbitrary: r evs)
  case (Cons t ts)
  then show ?case
    by (auto simp: rollup_step_view split: sum.splits prod.splits)
qed simp

lemma rollup_run_justified:
  assumes "rollup_run G C ts r = (r', evs)" "e \<in> set evs"
  shows "\<exists>pre t post. ts = pre @ t # post \<and> justified G C t (fst (rollup_run G C pre r)) e"
  using assms
proof (induction ts arbitrary: r evs)
  case (Cons t ts)
  show ?case
  proof (cases "rollup_step G C t r")
    case (Inl err)
    with Cons.prems Cons.IH [of r evs] obtain pre t' post where
      "ts = pre @ t' # post" "justified G C t' (fst (rollup_run G C pre r)) e"
      by auto
    with Inl show ?thesis
      by (intro exI [of _ "t # pre"] exI [of _ t'] exI [of _ post]) simp
  next
    case (Inr res)
    obtain r1 evs1 where res: "res = (r1, evs1)"
      by (cases res)
    obtain evs2 where run: "rollup_run G C ts r1 = (r', evs2)" "evs = evs1 @ evs2"
      using Cons.prems(1) Inr res by (auto split: prod.splits)
    show ?thesis
    proof (cases "e \<in> set evs1")
      case True
      then have "justified G C t r e"
        using rollup_step_view(3) Inr res by blast
      then show ?thesis
        by (intro exI [of _ "[]"] exI [of _ t] exI [of _ ts]) simp
    next
      case False
      with Cons.prems(2) run(2) Cons.IH [OF run(1)] obtain pre t' post where
        "ts = pre @ t' # post" "justified G C t' (fst (rollup_run G C pre r1)) e"
        by auto
      with Inr res show ?thesis
        by (intro exI [of _ "t # pre"] exI [of _ t'] exI [of _ post]) (simp add: case_prod_beta)
    qed
  qed
qed simp

text \<open>
  C8: In every history of the contract the events tell the whole story: the registry, the state
  root, the batch number and the deposits held are what the events say, and every event is
  justified by a call of the history.  In particular an intent is resolved only while it is
  locked, by the sequencer, outside a pause, with a proof the verifier accepts; and no ether
  ever leaves the contract.
\<close>

theorem rollup_history:
  assumes "rollup_run G C txs (rollup_new g seq root) = (r, evs)"
  shows "rollup_view r = fold view_event evs (rollup_view (rollup_new g seq root)) \<and>
    (\<forall>e \<in> set evs. \<exists>pre t post. txs = pre @ t # post \<and> justified G C t (fst (rollup_run G C pre (rollup_new g seq root))) e)"
  using rollup_run_view [OF assms] rollup_run_justified [OF assms] by blast

text \<open>An instance of the base contracts: the owner and whether the contract is paused.\<close>

definition sample_oz :: "(evm_address \<times> bool) oz_ops" where
  "sample_oz = \<lparr>oz_owner = fst, oz_paused = snd,
     oz_pause = (\<lambda>(a, p). if p then None else Some (a, True)), oz_unpause = (\<lambda>(a, p). if p then Some (a, False) else None),
     oz_transfer_ownership = (\<lambda>b (a, p). if b = 0 then None else Some (b, p))\<rparr>"

definition sample_contracts :: contracts where
  "sample_contracts = [42 \<mapsto> verifyProof]"

definition sample_txs :: "rollup_tx list" where
  "sample_txs =
     [\<lparr>tx_sender = 5, tx_value = 100, tx_call = DepositIntent [7]\<rparr>, \<lparr>tx_sender = 9, tx_value = 0, tx_call = SetVerifier 42\<rparr>,
      \<lparr>tx_sender = 5, tx_value = 0, tx_call = UpdateState [3] [1] [[7]]\<rparr>, \<lparr>tx_sender = 9, tx_value = 0, tx_call = UpdateState [3] [1] [[7], [8]]\<rparr>]"

lemmas rollup_eval = sample_oz_def sample_contracts_def sample_txs_def rollup_new_def rollup_step_def depositIntent_def
  setVerifier_def updateStateWithIntents_def verify_with_def verifyProof_def

theorem rollup_history_witness:
  "intentRegistry (fst (rollup_run sample_oz sample_contracts sample_txs (rollup_new (1, False) 9 [0]))) [7] = RESOLVED \<and>
   snd (rollup_run sample_oz sample_contracts sample_txs (rollup_new (1, False) 9 [0])) =
     [IntentLocked [7] 5 100, VerifierUpdated 42, IntentSettled [7] 9, StateUpdated 1 [0] [3]] \<and>
   rollup_view (fst (rollup_run sample_oz sample_contracts sample_txs (rollup_new (1, False) 9 [0]))) =
     fold view_event (snd (rollup_run sample_oz sample_contracts sample_txs (rollup_new (1, False) 9 [0]))) (rollup_view (rollup_new (1, False) 9 [0]))"
  using rollup_history [of sample_oz sample_contracts sample_txs "(1, False)" 9 "[0]", OF prod.collapse [symmetric]]
  by (simp add: rollup_eval rollup_view_def)

section \<open>The node settles on the contract\<close>

text \<open>
  The outcome of each call of the settlement task when the chain takes every call: a call that
  reverts is not settled.
\<close>

fun settle_on_rollup ::
  "'g oz_ops \<Rightarrow> contracts \<Rightarrow> (string \<Rightarrow> bytes option) \<Rightarrow> evm_address \<Rightarrow> EngineEvent list \<Rightarrow> 'g Rollup \<Rightarrow>
     'g Rollup \<times> (EngineEvent \<times> send_outcome) list" where
  "settle_on_rollup G C parse32 wallet [] r = (r, [])"
| "settle_on_rollup G C parse32 wallet (ev # evs) r =
     (case settlement_batch parse32 ev of
        None \<Rightarrow> settle_on_rollup G C parse32 wallet evs r
      | Some b \<Rightarrow>
          (case updateStateWithIntents G C wallet (new_state_root b) (sb_proof b) (resolved_intent_ids b) r of
             Inl _ \<Rightarrow> let (r', outs) = settle_on_rollup G C parse32 wallet evs r in (r', (ev, Reverted) # outs)
           | Inr (r1, _) \<Rightarrow> let (r', outs) = settle_on_rollup G C parse32 wallet evs r1 in (r', (ev, Settled) # outs)))"

fun resolves :: "EngineEvent \<Rightarrow> bool" where
  "resolves (IntentResolved _ _ _) \<longleftrightarrow> True"
| "resolves _ \<longleftrightarrow> False"

lemma zero_root_reverts:
  assumes "C (verifier r) = Some verifyProof" "currentStateRoot r = replicate 32 0"
  shows "settle_on_rollup G C parse32 wallet evs r = (r, map (\<lambda>ev. (ev, Reverted)) (filter resolves evs))"
proof (induction evs)
  case (Cons ev evs)
  have "\<exists>e. updateStateWithIntents G C wallet (new_state_root b) (sb_proof b) (resolved_intent_ids b) r = Inl e"
    if "settlement_batch parse32 ev = Some b" for b
    using assms that by (cases ev) (auto simp: updateStateWithIntents_def verify_with_def verifyProof_def)
  with Cons show ?case
    by (cases ev) fastforce+
qed simp

lemma settle_intents_one:
  "settle_intents [i] r = (if intentRegistry r i = LOCKED then (r\<lparr>intentRegistry := (intentRegistry r)(i := RESOLVED)\<rparr>, [IntentSettled i (SEQUENCER r)]) else (r, []))"
  by simp

text \<open>
  C29: The settlement task sends the zero state root with every resolved intent, and the generated
  verifier asks for a new root.  So with this verifier the first resolved intent is settled and
  every later one reverts, whatever the auctions decide: the contract ends as the first call
  left it, with all other locked intents locked.
\<close>

theorem settlement_stalls:
  assumes "C (verifier r) = Some verifyProof" "\<not> oz_paused G (oz_state r)" "currentStateRoot r \<noteq> replicate 32 0"
    and first: "\<not> list_ex resolves pre" "parse32 intent = Some i"
  shows "\<exists>r'. settle_on_rollup G C parse32 (SEQUENCER r) (pre @ IntentResolved intent solver amount # evs) r =
      (r', (IntentResolved intent solver amount, Settled) # map (\<lambda>ev. (ev, Reverted)) (filter resolves evs)) \<and>
    currentStateRoot r' = replicate 32 0 \<and>
    intentRegistry r' = (\<lambda>j. if j = i \<and> intentRegistry r i = LOCKED then RESOLVED else intentRegistry r j) \<and>
    settlement_task parse32 (snd (settle_on_rollup G C parse32 (SEQUENCER r) (pre @ IntentResolved intent solver amount # evs) r)) [] =
      [\<lparr>new_state_root = replicate 32 0, sb_proof = [1, 2, 3, 4, 5], resolved_intent_ids = [i]\<rparr>]"
proof -
  let ?ev = "IntentResolved intent solver amount"
  let ?reg = "\<lambda>j. if j = i \<and> intentRegistry r i = LOCKED then RESOLVED else intentRegistry r j"
  let ?r = "r\<lparr>intentRegistry := ?reg, currentStateRoot := replicate 32 0, currentBatchId := currentBatchId r + 1\<rparr>"
  have skip: "settle_on_rollup G C parse32 w (pre @ es) r = settle_on_rollup G C parse32 w es r" for w es
    using first(1) by (induction pre) (auto elim: resolves.elims(3) split: option.splits)
  have "\<exists>es. updateStateWithIntents G C (SEQUENCER r) (replicate 32 0) [1, 2, 3, 4, 5] [i] r = Inr (?r, es)"
    using assms(1-3) by (auto simp: updateStateWithIntents_def verify_with_def verifyProof_def settle_intents_one fun_eq_iff
        simp del: settle_intents.simps)
  then have run: "settle_on_rollup G C parse32 (SEQUENCER r) (pre @ ?ev # evs) r =
      (?r, (?ev, Settled) # map (\<lambda>ev. (ev, Reverted)) (filter resolves evs))"
    unfolding skip using zero_root_reverts [of C ?r G parse32 "SEQUENCER r" evs] assms(1) first(2) by auto
  have rejected: "settlement_task parse32 (map (\<lambda>ev. (ev, Reverted)) es) l = l" for es l
    by (induction es arbitrary: l) (auto simp: submit_zk_batch_def split: option.split)
  show ?thesis
    using run first(2) rejected by (simp add: submit_zk_batch_def)
qed

definition sample_rollup :: "(evm_address \<times> bool) Rollup" where
  "sample_rollup = (rollup_new (1, False) 9 (replicate 32 1))\<lparr>verifier := 42, intentRegistry := (\<lambda>_. LOCKED)\<rparr>"

theorem settlement_stalls_witness:
  "\<exists>r'. settle_on_rollup sample_oz sample_contracts (\<lambda>t. if t = ''a'' then Some (replicate 32 7) else Some (replicate 32 8)) 9 [IntentResolved ''a'' ''s'' 1, IntentResolved ''b'' ''s'' 2] sample_rollup =
      (r', [(IntentResolved ''a'' ''s'' 1, Settled), (IntentResolved ''b'' ''s'' 2, Reverted)]) \<and>
    intentRegistry r' (replicate 32 7) = RESOLVED \<and> intentRegistry r' (replicate 32 8) = LOCKED"
proof -
  have "sample_contracts (verifier sample_rollup) = Some verifyProof" "\<not> oz_paused sample_oz (oz_state sample_rollup)"
    "currentStateRoot sample_rollup \<noteq> replicate 32 0" "SEQUENCER sample_rollup = 9" "intentRegistry sample_rollup = (\<lambda>_. LOCKED)"
    by (simp_all add: sample_contracts_def sample_oz_def sample_rollup_def rollup_new_def)
  then show ?thesis
    using settlement_stalls [of sample_contracts sample_rollup sample_oz "[]"
        "\<lambda>t. if t = ''a'' then Some (replicate 32 7) else Some (replicate 32 8)" "''a''" "replicate 32 7" "''s''" 1 "[IntentResolved ''b'' ''s'' 2]"]
    by (auto simp del: settle_on_rollup.simps)
qed

end
