(* ===== verification/Ffi.thy ===== *)
theory Ffi
  imports Order_Engine Texts "HOL-Library.Multiset"
begin

text \<open>
  The C interface of the matching engine (\<^verbatim>\<open>zkapp/ffi/src/lib.rs\<close>, \<^verbatim>\<open>error.rs\<close>): one engine per process,
  strings handed to the caller as raw pointers that it must free, JSON in and out.
\<close>

section \<open>State\<close>

datatype EviceFfiError =
    Success
  | NullPointer
  | InvalidUtf8
  | EngineNotInitialized
  | InvalidJson
  | OrderNotFound
  | InvalidOrderParams
  | AuctionNotFound
  | InvalidIntent
  | BidRejected
  | WalError
  | InternalError

definition ffi_unwrap :: "EviceFfiError \<Rightarrow> rust_panic + unit" where
  "ffi_unwrap e = (if e = Success then Inr () else Inl (ExpectFailed ''Called `unwrap()` on error value''))"

text \<open>
  The engine once it is initialised, and the strings that were given to the caller and not
  yet freed, by address.
\<close>

record 's FfiState =
  ffi_engine :: "'s OrderBook option"
  c_strings :: "nat \<rightharpoonup> string"
  next_addr :: nat

definition ffi_start :: "'s FfiState" where
  "ffi_start = \<lparr>ffi_engine = None, c_strings = Map.empty, next_addr = 0\<rparr>"

text \<open>
  The JSON library: parsing, indexing with a key, which gives null where there is nothing, the
  conversions to numbers and strings, and printing.
\<close>

record 'j json_ops =
  json_from_str :: "string \<Rightarrow> 'j option"
  json_index :: "'j \<Rightarrow> string \<Rightarrow> 'j"
  json_as_u64 :: "'j \<Rightarrow> u64 option"
  json_as_str :: "'j \<Rightarrow> string option"
  json_to_string :: "json_value \<Rightarrow> string"

section \<open>Strings\<close>

text \<open>A C string pointer is null or points to bytes that end before the first zero byte.\<close>

definition c_str_to_string :: "bytes option \<Rightarrow> EviceFfiError + string" where
  "c_str_to_string ptr =
     (case ptr of
        None \<Rightarrow> Inl NullPointer
      | Some bs \<Rightarrow> if utf8_valid bs then Inr (map (\<lambda>b. char_of (unat b)) bs) else Inl InvalidUtf8)"

definition to_c_string :: "string \<Rightarrow> 's FfiState \<Rightarrow> 's FfiState \<times> nat option" where
  "to_c_string s st =
     (if CHR 0x00 \<in> set s then (st, None)
      else (st\<lparr>c_strings := (c_strings st)(next_addr st \<mapsto> s), next_addr := next_addr st + 1\<rparr>, Some (next_addr st)))"

datatype ffi_fault = Panicked rust_panic | InvalidFree

definition evice_free_string :: "nat option \<Rightarrow> 's FfiState \<Rightarrow> ffi_fault + 's FfiState" where
  "evice_free_string p st =
     (case p of
        None \<Rightarrow> Inr st
      | Some a \<Rightarrow> if c_strings st a = None then Inl InvalidFree
                  else Inr (st\<lparr>c_strings := (c_strings st)(a := None)\<rparr>))"

section \<open>Calls\<close>

definition get_engine :: "'s FfiState \<Rightarrow> EviceFfiError + 's OrderBook" where
  "get_engine st = (case ffi_engine st of None \<Rightarrow> Inl EngineNotInitialized | Some b \<Rightarrow> Inr b)"

definition evice_engine_init :: "(Order, 's) slab_ops \<Rightarrow> 's FfiState \<Rightarrow> 's FfiState \<times> EviceFfiError" where
  "evice_engine_init SO st =
     ((case ffi_engine st of None \<Rightarrow> st\<lparr>ffi_engine := Some (new_book SO)\<rparr> | Some _ \<Rightarrow> st), Success)"

definition evice_engine_destroy :: "'s FfiState \<Rightarrow> 's FfiState \<times> EviceFfiError" where
  "evice_engine_destroy st = (st, Success)"

fun events_to_fills_json :: "EngineEvent list \<Rightarrow> json_value list" where
  "events_to_fills_json [] = []"
| "events_to_fills_json (TradeExecuted m t p q # evs) =
     JObj [(''maker_order_id'', JU64 m), (''taker_order_id'', JU64 t), (''price'', JU64 p), (''quantity'', JU64 q)] #
     events_to_fills_json evs"
| "events_to_fills_json (_ # evs) = events_to_fills_json evs"

definition field_u64 :: "'j json_ops \<Rightarrow> 'j \<Rightarrow> string \<Rightarrow> u64" where
  "field_u64 J v k = (case json_as_u64 J (json_index J v k) of Some n \<Rightarrow> n | None \<Rightarrow> 0)"

definition field_side :: "'j json_ops \<Rightarrow> 'j \<Rightarrow> Side" where
  "field_side J v =
     (let s = (case json_as_str J (json_index J v ''side'') of Some s \<Rightarrow> s | None \<Rightarrow> ''bid'')
      in if s = ''ask'' \<or> s = ''Ask'' \<or> s = ''ASK'' then Ask else Bid)"

definition place_report :: "u64 \<Rightarrow> EngineEvent list \<Rightarrow> json_value" where
  "place_report oid evs =
     JObj [(''success'', JBool True), (''order_id'', JU64 oid), (''fills'', JArr (events_to_fills_json evs)),
           (''fill_count'', JU64 (of_nat (length (events_to_fills_json evs))))]"

definition evice_place_order ::
  "'j json_ops \<Rightarrow> (Order, 's) slab_ops \<Rightarrow> bytes option \<Rightarrow> 's FfiState \<Rightarrow> ffi_fault + 's FfiState \<times> nat option" where
  "evice_place_order J SO ptr st =
     (case c_str_to_string ptr of
        Inl e \<Rightarrow> Inr (st, None)
      | Inr text \<Rightarrow>
          (case get_engine st of
             Inl e \<Rightarrow> Inr (st, None)
           | Inr book \<Rightarrow>
               (case json_from_str J text of
                  None \<Rightarrow> Inr (st, None)
                | Some v \<Rightarrow>
                    let oid = field_u64 J v ''order_id''; uid = field_u64 J v ''user_id''; side = field_side J v;
                        price = field_u64 J v ''price''; qty = field_u64 J v ''quantity''
                    in if price = 0 \<or> qty = 0 then Inr (st, None)
                       else case place_limit_order SO oid uid side price qty book of
                          Inl e \<Rightarrow> Inl (Panicked e)
                        | Inr (book', evs) \<Rightarrow>
                            Inr (to_c_string (json_to_string J (place_report oid evs)) (st\<lparr>ffi_engine := Some book'\<rparr>)))))"

definition cancel_report :: "u64 \<Rightarrow> bool \<Rightarrow> json_value" where
  "cancel_report oid cancelled =
     JObj [(''success'', JBool cancelled), (''order_id'', JU64 oid),
           (''message'', JStr (if cancelled then ''Order cancelled'' else ''Order not found or unauthorized''))]"

definition evice_cancel_order ::
  "'j json_ops \<Rightarrow> (Order, 's) slab_ops \<Rightarrow> u64 \<Rightarrow> u64 \<Rightarrow> 's FfiState \<Rightarrow> ffi_fault + 's FfiState \<times> nat option" where
  "evice_cancel_order J SO oid uid st =
     (case get_engine st of
        Inl e \<Rightarrow> Inr (st, None)
      | Inr book \<Rightarrow>
          (case cancel_order SO oid uid book of
             Inl e \<Rightarrow> Inl (Panicked e)
           | Inr (book', evs) \<Rightarrow>
               Inr (to_c_string (json_to_string J (cancel_report oid (\<exists>e \<in> set evs. case e of OrderCancelled _ \<Rightarrow> True | _ \<Rightarrow> False)))
                 (st\<lparr>ffi_engine := Some book'\<rparr>))))"

definition depth_report :: "OrderLevel list \<Rightarrow> OrderLevel list \<Rightarrow> json_value" where
  "depth_report as bs =
     (let level = (\<lambda>l. JObj [(''price'', JU64 (l_price l)), (''quantity'', JU64 (l_quantity l))])
      in JObj [(''bids'', JArr (map level bs)), (''asks'', JArr (map level as))])"

definition evice_get_depth ::
  "build_profile \<Rightarrow> 'j json_ops \<Rightarrow> (Order, 's) slab_ops \<Rightarrow> u32 \<Rightarrow> 's FfiState \<Rightarrow> ffi_fault + 's FfiState \<times> nat option" where
  "evice_get_depth prof J SO lvls st =
     (case get_engine st of
        Inl e \<Rightarrow> Inr (st, None)
      | Inr book \<Rightarrow>
          (case get_depth prof SO (unat lvls) book of
             Inl e \<Rightarrow> Inl (Panicked e)
           | Inr (as, bs) \<Rightarrow> Inr (to_c_string (json_to_string J (depth_report as bs)) st)))"

text \<open>The status names the version of the package, from its build environment.\<close>

definition status_report :: "string \<Rightarrow> OrderLevel list \<Rightarrow> OrderLevel list \<Rightarrow> json_value" where
  "status_report version as bs =
     (let best = (\<lambda>ls. case ls of [] \<Rightarrow> JNull | l # _ \<Rightarrow> JU64 (l_price l))
      in JObj [(''initialized'', JBool True), (''best_bid'', best bs), (''best_ask'', best as), (''version'', JStr version)])"

definition evice_get_status ::
  "build_profile \<Rightarrow> 'j json_ops \<Rightarrow> string \<Rightarrow> (Order, 's) slab_ops \<Rightarrow> 's FfiState \<Rightarrow> ffi_fault + 's FfiState \<times> nat option" where
  "evice_get_status prof J version SO st =
     (case ffi_engine st of
        None \<Rightarrow> Inr (to_c_string (json_to_string J
                   (JObj [(''initialized'', JBool False), (''error'', JStr ''Engine not initialized'')])) st)
      | Some book \<Rightarrow>
          (case get_depth prof SO 1 book of
             Inl e \<Rightarrow> Inl (Panicked e)
           | Inr (as, bs) \<Rightarrow> Inr (to_c_string (json_to_string J (status_report version as bs)) st)))"

section \<open>Sessions\<close>

datatype ffi_call =
    CallInit
  | CallDestroy
  | CallPlace "bytes option"
  | CallCancel u64 u64
  | CallDepth u32
  | CallStatus

text \<open>A call and, where it gives one, the string pointer it returns.\<close>

fun ffi_step ::
  "build_profile \<Rightarrow> 'j json_ops \<Rightarrow> string \<Rightarrow> (Order, 's) slab_ops \<Rightarrow> ffi_call \<Rightarrow> 's FfiState \<Rightarrow> ffi_fault + 's FfiState \<times> nat option" where
  "ffi_step prof J ver SO CallInit st = Inr (fst (evice_engine_init SO st), None)"
| "ffi_step prof J ver SO CallDestroy st = Inr (fst (evice_engine_destroy st), None)"
| "ffi_step prof J ver SO (CallPlace ptr) st = evice_place_order J SO ptr st"
| "ffi_step prof J ver SO (CallCancel oid uid) st = evice_cancel_order J SO oid uid st"
| "ffi_step prof J ver SO (CallDepth n) st = evice_get_depth prof J SO n st"
| "ffi_step prof J ver SO CallStatus st = evice_get_status prof J ver SO st"

fun ffi_session ::
  "build_profile \<Rightarrow> 'j json_ops \<Rightarrow> string \<Rightarrow> (Order, 's) slab_ops \<Rightarrow> ffi_call list \<Rightarrow> 's FfiState \<Rightarrow>
     ffi_fault + 's FfiState \<times> nat option list" where
  "ffi_session prof J ver SO [] st = Inr (st, [])"
| "ffi_session prof J ver SO (c # cs) st =
     bindR (ffi_step prof J ver SO c st) (\<lambda>(st', p). bindR (ffi_session prof J ver SO cs st') (\<lambda>(st'', ps). Inr (st'', p # ps)))"

fun free_all :: "nat list \<Rightarrow> 's FfiState \<Rightarrow> ffi_fault + 's FfiState" where
  "free_all [] st = Inr st"
| "free_all (a # as) st = bindR (evice_free_string (Some a) st) (free_all as)"

section \<open>What the interface guarantees\<close>

definition ffi_ok :: "(Order, 's) slab_ops \<Rightarrow> 's FfiState \<Rightarrow> bool" where
  "ffi_ok SO st \<longleftrightarrow> (\<forall>b. ffi_engine st = Some b \<longrightarrow> book_inv SO b) \<and> (\<forall>a. c_strings st a \<noteq> None \<longrightarrow> a < next_addr st)"

text \<open>Either no string is returned and none is made, or a fresh one is.\<close>

definition returns :: "'s FfiState \<Rightarrow> 's FfiState \<Rightarrow> nat option \<Rightarrow> bool" where
  "returns st st' p \<longleftrightarrow>
     (case p of
        None \<Rightarrow> dom (c_strings st') = dom (c_strings st) \<and> next_addr st' = next_addr st
      | Some a \<Rightarrow> a = next_addr st \<and> dom (c_strings st') = insert a (dom (c_strings st)) \<and> next_addr st' = next_addr st + 1)"

lemma returns_simps [simp]:
  "returns st st' None \<longleftrightarrow> dom (c_strings st') = dom (c_strings st) \<and> next_addr st' = next_addr st"
  "returns st st' (Some a) \<longleftrightarrow>
     a = next_addr st \<and> dom (c_strings st') = insert a (dom (c_strings st)) \<and> next_addr st' = next_addr st + 1"
  by (simp_all add: returns_def)

lemma to_c_string_fresh:
  assumes "CHR 0x00 \<notin> set s"
  shows "to_c_string s st = (st\<lparr>c_strings := (c_strings st)(next_addr st \<mapsto> s), next_addr := next_addr st + 1\<rparr>, Some (next_addr st))"
  using assms by (simp add: to_c_string_def)

lemma returns_ok:
  assumes "ffi_ok SO st" "returns st st' p" "\<And>b. ffi_engine st' = Some b \<Longrightarrow> book_inv SO b"
  shows "ffi_ok SO st'"
proof -
  have "a < next_addr st'" if "a \<in> dom (c_strings st')" for a
    using assms(1,2) that by (cases p) (auto simp: ffi_ok_def less_Suc_eq)
  with assms(3) show ?thesis
    unfolding ffi_ok_def by blast
qed

text \<open>The text of an order that is taken, and what is read from it.\<close>

definition order_text :: "'j json_ops \<Rightarrow> bytes option \<Rightarrow> 'j option" where
  "order_text J ptr =
     (case c_str_to_string ptr of
        Inl e \<Rightarrow> None
      | Inr s \<Rightarrow> (case json_from_str J s of
          None \<Rightarrow> None
        | Some v \<Rightarrow> if field_u64 J v ''price'' = 0 \<or> field_u64 J v ''quantity'' = 0 then None else Some v))"

lemma place_rejects:
  assumes "ffi_engine st = Some b" "order_text J ptr = None"
  shows "evice_place_order J SO ptr st = Inr (st, None)"
  using assms
  by (auto simp: order_text_def evice_place_order_def get_engine_def Let_def split: sum.splits option.splits if_splits)

lemma place_accepts:
  assumes "order_slab SO" "ffi_engine st = Some b" "book_inv SO b" "\<And>v. CHR 0x00 \<notin> set (json_to_string J v)"
    "order_text J ptr = Some v"
  obtains b' evs where "evice_place_order J SO ptr st =
      Inr (st\<lparr>ffi_engine := Some b',
             c_strings := (c_strings st)(next_addr st \<mapsto> json_to_string J (place_report (field_u64 J v ''order_id'') evs)),
             next_addr := next_addr st + 1\<rparr>, Some (next_addr st))"
    "book_inv SO b'"
    "spec_place (field_u64 J v ''order_id'') (field_u64 J v ''user_id'') (field_side J v)
       (field_u64 J v ''price'') (field_u64 J v ''quantity'') (abs_of SO b) = (abs_of SO b', evs)"
proof -
  obtain b' evs where "place_limit_order SO (field_u64 J v ''order_id'') (field_u64 J v ''user_id'') (field_side J v)
      (field_u64 J v ''price'') (field_u64 J v ''quantity'') b = Inr (b', evs)" "book_inv SO b'"
    "spec_place (field_u64 J v ''order_id'') (field_u64 J v ''user_id'') (field_side J v)
      (field_u64 J v ''price'') (field_u64 J v ''quantity'') (abs_of SO b) = (abs_of SO b', evs)"
    using order_slab.place_refines [OF assms(1,3)] by blast
  moreover from this(1) have "evice_place_order J SO ptr st =
      Inr (to_c_string (json_to_string J (place_report (field_u64 J v ''order_id'') evs)) (st\<lparr>ffi_engine := Some b'\<rparr>))"
    using assms(2,5)
    by (auto simp: order_text_def evice_place_order_def get_engine_def Let_def split: sum.splits option.splits if_splits)
  ultimately show thesis
    using that assms(4) by (simp add: to_c_string_fresh)
qed

lemma ffi_step_safe:
  assumes slab: "order_slab SO" and ok: "ffi_ok SO st" and nul: "\<And>v. CHR 0x00 \<notin> set (json_to_string J v)"
  shows "\<exists>st' p. ffi_step Release J ver SO c st = Inr (st', p) \<and> ffi_ok SO st' \<and> returns st st' p"
proof (cases "ffi_engine st")
  case None
  have "\<exists>st' p. ffi_step Release J ver SO c st = Inr (st', p) \<and> returns st st' p \<and>
      (\<forall>b. ffi_engine st' = Some b \<longrightarrow> b = new_book SO)"
    using None
    by (cases c) (auto simp: evice_engine_init_def evice_engine_destroy_def evice_place_order_def evice_cancel_order_def
        evice_get_depth_def evice_get_status_def get_engine_def to_c_string_fresh [OF nul] split: sum.split)
  then show ?thesis
    using returns_ok [OF ok] order_slab.new_book_inv [OF slab] by blast
next
  case (Some b)
  with ok have inv: "book_inv SO b"
    by (simp add: ffi_ok_def)
  have "\<exists>st' p. ffi_step Release J ver SO c st = Inr (st', p) \<and> returns st st' p \<and>
      (\<forall>b. ffi_engine st' = Some b \<longrightarrow> book_inv SO b)"
  proof (cases c)
    case (CallPlace ptr)
    show ?thesis
    proof (cases "order_text J ptr")
      case None
      with CallPlace Some inv place_rejects [OF Some None] show ?thesis
        by simp
    next
      case (Some v)
      with place_accepts [OF slab \<open>ffi_engine st = Some b\<close> inv nul Some] obtain b' evs where
        "evice_place_order J SO ptr st = Inr (st\<lparr>ffi_engine := Some b',
           c_strings := (c_strings st)(next_addr st \<mapsto> json_to_string J (place_report (field_u64 J v ''order_id'') evs)),
           next_addr := next_addr st + 1\<rparr>, Some (next_addr st))" "book_inv SO b'"
        by metis
      with CallPlace show ?thesis
        by simp
    qed
  next
    case (CallCancel oid uid)
    obtain b' evs where "cancel_order SO oid uid b = Inr (b', evs)" "book_inv SO b'"
      using order_slab.cancel_safe [OF slab inv] by blast
    with CallCancel Some show ?thesis
      by (simp add: evice_cancel_order_def get_engine_def to_c_string_fresh [OF nul])
  next
    case (CallDepth n)
    obtain as bs where "get_depth Release SO (unat n) b = Inr (as, bs)"
      using get_depth_release [of SO "unat n" b] by auto
    with CallDepth Some inv show ?thesis
      by (simp add: evice_get_depth_def get_engine_def to_c_string_fresh [OF nul])
  next
    case CallStatus
    obtain as bs where "get_depth Release SO 1 b = Inr (as, bs)"
      using get_depth_release [of SO 1 b] by auto
    with CallStatus Some inv show ?thesis
      by (simp add: evice_get_status_def to_c_string_fresh [OF nul])
  qed (use Some inv in \<open>simp_all add: evice_engine_init_def evice_engine_destroy_def\<close>)
  then show ?thesis
    using returns_ok [OF ok] by blast
qed

text \<open>The pointers a session returned.\<close>

definition pointers :: "nat option list \<Rightarrow> nat list" where
  "pointers ps = concat (map (\<lambda>p. case p of None \<Rightarrow> [] | Some a \<Rightarrow> [a]) ps)"

lemma pointers_simps [simp]: "pointers [] = []" "pointers (None # ps) = pointers ps" "pointers (Some a # ps) = a # pointers ps"
  by (simp_all add: pointers_def)

lemma ffi_session_run:
  assumes "order_slab SO" "\<And>v. CHR 0x00 \<notin> set (json_to_string J v)" "ffi_ok SO st"
  shows "\<exists>st' ps. ffi_session Release J ver SO cs st = Inr (st', ps) \<and> ffi_ok SO st' \<and> distinct (pointers ps) \<and>
    dom (c_strings st') = dom (c_strings st) \<union> set (pointers ps) \<and> (\<forall>a \<in> set (pointers ps). next_addr st \<le> a)"
  using assms(3)
proof (induction cs arbitrary: st)
  case (Cons c cs)
  obtain st1 p where step: "ffi_step Release J ver SO c st = Inr (st1, p)" "ffi_ok SO st1" "returns st st1 p"
    using ffi_step_safe [OF assms(1) Cons.prems assms(2)] by blast
  obtain st' ps where rest: "ffi_session Release J ver SO cs st1 = Inr (st', ps)" "ffi_ok SO st'" "distinct (pointers ps)"
    "dom (c_strings st') = dom (c_strings st1) \<union> set (pointers ps)" "\<forall>a \<in> set (pointers ps). next_addr st1 \<le> a"
    using Cons.IH [OF step(2)] by blast
  then have "distinct (pointers (p # ps)) \<and> dom (c_strings st') = dom (c_strings st) \<union> set (pointers (p # ps)) \<and>
      (\<forall>a \<in> set (pointers (p # ps)). next_addr st \<le> a)"
    using step(3) by (cases p) auto
  with step(1) rest(1,2) show ?case
    by auto
qed simp

lemma free_all_live:
  assumes "distinct as" "set as = dom (c_strings st)"
  shows "\<exists>st'. free_all as st = Inr st' \<and> c_strings st' = Map.empty"
  using assms
proof (induction as arbitrary: st)
  case (Cons a as)
  let ?st = "st\<lparr>c_strings := (c_strings st)(a := None)\<rparr>"
  have "a \<in> dom (c_strings st)"
    using Cons.prems(2) by auto
  moreover have "\<exists>st'. free_all as ?st = Inr st' \<and> c_strings st' = Map.empty"
    using Cons.prems by (intro Cons.IH) (auto simp: dom_fun_upd simp del: fun_upd_apply)
  ultimately show ?case
    by (auto simp: evice_free_string_def)
qed auto

text \<open>
  C13: In a release build, with a JSON printer that writes no zero byte, every sequence of calls
  from the start of the process returns without a panic, whatever pointers and texts it is
  given; the engine's book satisfies its invariant; the pointers returned are all different and
  are exactly the strings still allocated; and freeing each of them once, in any order, never
  frees anything twice and leaves nothing allocated.
\<close>

theorem ffi_session_safe:
  assumes "order_slab SO" "\<And>v. CHR 0x00 \<notin> set (json_to_string J v)"
  shows "\<exists>st ps. ffi_session Release J ver SO cs ffi_start = Inr (st, ps) \<and>
    (\<forall>b. ffi_engine st = Some b \<longrightarrow> book_inv SO b) \<and>
    distinct (pointers ps) \<and> dom (c_strings st) = set (pointers ps) \<and>
    (\<forall>as. mset as = mset (pointers ps) \<longrightarrow> (\<exists>st'. free_all as st = Inr st' \<and> c_strings st' = Map.empty))"
proof -
  have start: "ffi_ok SO ffi_start" "dom (c_strings (ffi_start :: 'a FfiState)) = {}"
    by (simp_all add: ffi_ok_def ffi_start_def)
  obtain st ps where run: "ffi_session Release J ver SO cs ffi_start = Inr (st, ps)" "ffi_ok SO st" "distinct (pointers ps)"
    "dom (c_strings st) = set (pointers ps)"
    using ffi_session_run [OF assms start(1), of ver cs] start(2) by auto
  moreover have "\<exists>st'. free_all as st = Inr st' \<and> c_strings st' = Map.empty" if "mset as = mset (pointers ps)" for as
    using run(3,4) that mset_eq_imp_distinct_iff [OF that] mset_eq_setD [OF that] by (intro free_all_live) auto
  ultimately show ?thesis
    unfolding ffi_ok_def by blast
qed

text \<open>A reader for the example: the text is the price, everything else is fixed.\<close>

definition sample_json :: "string json_ops" where
  "sample_json = \<lparr>json_from_str = Some, json_index = (\<lambda>v k. v),
     json_as_u64 = (\<lambda>v. if v = '''' then None else Some 7), json_as_str = Some, json_to_string = (\<lambda>_. ''{}'')\<rparr>"

theorem ffi_session_safe_witness:
  "\<exists>st ps. ffi_session Release sample_json ''0.1.0'' vec_slab
       [CallPlace None, CallInit, CallPlace (Some [49]), CallStatus, CallCancel 7 7] ffi_start = Inr (st, ps) \<and>
     distinct (pointers ps) \<and> (\<exists>st'. free_all (rev (pointers ps)) st = Inr st' \<and> c_strings st' = Map.empty)"
proof -
  have "\<And>v. CHR 0x00 \<notin> set (json_to_string sample_json v)"
    by (simp add: sample_json_def)
  from ffi_session_safe [OF vec_order_slab this, of "''0.1.0''" "[CallPlace None, CallInit, CallPlace (Some [49]), CallStatus, CallCancel 7 7]"]
  show ?thesis
    by (metis mset_rev)
qed

text \<open>
  On an initialised engine, an order text that is valid UTF-8 and JSON with a positive price
  and quantity is placed as the price-time priority specification says, and the caller gets the
  report of exactly the events of that placement; every other text returns null and changes
  nothing.
\<close>

lemma evice_place_order_exact:
  assumes "order_slab SO" "ffi_engine st = Some b" "book_inv SO b" "\<And>v. CHR 0x00 \<notin> set (json_to_string J v)"
  shows "case order_text J ptr of
      None \<Rightarrow> evice_place_order J SO ptr st = Inr (st, None)
    | Some v \<Rightarrow> \<exists>b' evs. evice_place_order J SO ptr st =
          Inr (st\<lparr>ffi_engine := Some b',
                 c_strings := (c_strings st)(next_addr st \<mapsto> json_to_string J (place_report (field_u64 J v ''order_id'') evs)),
                 next_addr := next_addr st + 1\<rparr>, Some (next_addr st)) \<and>
        book_inv SO b' \<and>
        spec_place (field_u64 J v ''order_id'') (field_u64 J v ''user_id'') (field_side J v)
          (field_u64 J v ''price'') (field_u64 J v ''quantity'') (abs_of SO b) = (abs_of SO b', evs)"
proof (cases "order_text J ptr")
  case None
  with place_rejects [OF assms(2) None] show ?thesis
    by simp
next
  case (Some v)
  show ?thesis
    by (rule place_accepts [OF assms Some]) (simp add: Some, blast)
qed

end
