(* ===== verification/Seq_Types.thy ===== *)
theory Seq_Types
  imports Prelude
begin

text \<open>
  The data of the sequencer (\<^verbatim>\<open>evice-multi-sequencer/src/lib.rs\<close>, \<^verbatim>\<open>crypto.rs\<close>,
  \<^verbatim>\<open>genesis.rs\<close>, \<^verbatim>\<open>consensus/types.rs\<close>, \<^verbatim>\<open>p2p/types.rs\<close>) and the operations on it that
  hash, sign and verify.  The primitives of the cryptographic crates are the fields of
  \<open>crypto_ops\<close>; the locale \<open>signatures\<close> names what the sequencer relies on.
\<close>

section \<open>Sizes and primitives\<close>

definition PUBLIC_KEY_SIZE :: nat where "PUBLIC_KEY_SIZE = 1312"

definition ADDRESS_SIZE :: nat where "ADDRESS_SIZE = 20"

definition PRIVATE_KEY_SIZE :: nat where "PRIVATE_KEY_SIZE = 2560"

definition SIGNATURE_SIZE :: nat where "SIGNATURE_SIZE = 2420"

text \<open>
  The hash functions are applied to everything fed to the hasher; \<open>dil_\<close> are the operations
  of the Dilithium crate, \<open>vrf_\<close> those of schnorrkel, where signing and verification take
  the context and the message; a \<open>_ok\<close> field says whether \<^verbatim>\<open>from_bytes\<close> succeeds.
\<close>

record crypto_ops =
  sha256 :: "bytes \<Rightarrow> bytes"
  keccak256 :: "bytes \<Rightarrow> bytes"
  dil_pk_ok :: "bytes \<Rightarrow> bool"
  dil_sk_ok :: "bytes \<Rightarrow> bool"
  dil_sig_ok :: "bytes \<Rightarrow> bool"
  dil_sign :: "bytes \<Rightarrow> bytes \<Rightarrow> bytes"
  dil_verify :: "bytes \<Rightarrow> bytes \<Rightarrow> bytes \<Rightarrow> bool"
  vrf_pk_ok :: "bytes \<Rightarrow> bool"
  vrf_out_ok :: "bytes \<Rightarrow> bool"
  vrf_proof_ok :: "bytes \<Rightarrow> bool"
  vrf_sign :: "bytes \<Rightarrow> bytes \<Rightarrow> bytes \<Rightarrow> bytes \<times> bytes"
  vrf_verify :: "bytes \<Rightarrow> bytes \<Rightarrow> bytes \<Rightarrow> bytes \<Rightarrow> bytes \<Rightarrow> bool"

section \<open>Addresses and keys\<close>

datatype Address = Address (addr_bytes: bytes)

instantiation Address :: linorder
begin

definition less_eq_Address :: "Address \<Rightarrow> Address \<Rightarrow> bool" where
  "less_eq_Address a b \<longleftrightarrow> addr_bytes a \<le> addr_bytes b"

definition less_Address :: "Address \<Rightarrow> Address \<Rightarrow> bool" where
  "less_Address a b \<longleftrightarrow> addr_bytes a < addr_bytes b"

instance
  by standard (auto simp: less_eq_Address_def less_Address_def addr_bytes_def split: Address.splits)

end

datatype FullPublicKey = FullPublicKey (pk_bytes: bytes)

definition pk_serialize :: "FullPublicKey \<Rightarrow> bytes" where
  "pk_serialize pk = pk_bytes pk"

definition pk_deserialize :: "bytes \<Rightarrow> (FullPublicKey \<times> bytes) option" where
  "pk_deserialize bs =
     (if length bs < PUBLIC_KEY_SIZE then None
      else Some (FullPublicKey (take PUBLIC_KEY_SIZE bs), drop PUBLIC_KEY_SIZE bs))"

definition pk_default :: FullPublicKey where
  "pk_default = FullPublicKey (replicate PUBLIC_KEY_SIZE 0)"

text \<open>The last twenty bytes of the hash; the slice panics on a shorter one.\<close>

definition public_key_to_address :: "crypto_ops \<Rightarrow> bytes \<Rightarrow> rust_panic + Address" where
  "public_key_to_address CR pk =
     (let h = keccak256 CR pk
      in if length h < ADDRESS_SIZE then Inl SliceLength
         else Inr (Address (drop (length h - ADDRESS_SIZE) h)))"

record KeyPair =
  public_key :: bytes
  private_key :: bytes

record ValidatorKeys =
  signing_keys :: KeyPair
  vrf_secret :: bytes

definition keypair_sign :: "crypto_ops \<Rightarrow> KeyPair \<Rightarrow> bytes \<Rightarrow> rust_panic + bytes" where
  "keypair_sign CR kp msg =
     (let sig = dil_sign CR (private_key kp) msg
      in if length sig = SIGNATURE_SIZE then Inr sig else Inl (ExpectFailed ''Signature length mismatch''))"

definition public_key_bytes :: "KeyPair \<Rightarrow> rust_panic + bytes" where
  "public_key_bytes kp =
     (if length (public_key kp) = PUBLIC_KEY_SIZE then Inr (public_key kp)
      else Inl (ExpectFailed ''Public key length mismatch''))"

definition private_key_bytes :: "KeyPair \<Rightarrow> rust_panic + bytes" where
  "private_key_bytes kp =
     (if length (private_key kp) = PRIVATE_KEY_SIZE then Inr (private_key kp)
      else Inl (ExpectFailed ''Secret key length mismatch''))"

definition from_key_bytes :: "crypto_ops \<Rightarrow> bytes \<Rightarrow> bytes \<Rightarrow> string + KeyPair" where
  "from_key_bytes CR pk sk =
     (if \<not> dil_pk_ok CR pk then Inl ''Failed to create public key from bytes: invalid length''
      else if \<not> dil_sk_ok CR sk then Inl ''Failed to create secret key from bytes: invalid length''
      else Inr \<lparr>public_key = pk, private_key = sk\<rparr>)"

definition verify_sig :: "crypto_ops \<Rightarrow> bytes \<Rightarrow> bytes \<Rightarrow> bytes \<Rightarrow> bool" where
  "verify_sig CR pk msg sig =
     (if \<not> dil_pk_ok CR pk then False
      else if \<not> dil_sig_ok CR sig then False
      else dil_verify CR pk msg sig)"

section \<open>Batches, votes and certificates\<close>

datatype AppPayload = AppPayload (payload_bytes: bytes)

definition payload_hash :: "crypto_ops \<Rightarrow> AppPayload \<Rightarrow> bytes" where
  "payload_hash CR p = sha256 CR (payload_bytes p)"

record BatchHeader =
  bh_index :: u64
  prev_hash :: bytes
  bh_timestamp :: u64
  payloads_root :: bytes
  authority :: Address
  vrf_output :: bytes
  vrf_proof :: bytes
  bh_signature :: bytes

definition canonical_bytes_for_signing :: "BatchHeader \<Rightarrow> bytes" where
  "canonical_bytes_for_signing h =
     to_be_bytes (bh_index h) @ prev_hash h @ to_be_bytes (bh_timestamp h) @ payloads_root h @
     addr_bytes (authority h) @ vrf_output h @ vrf_proof h"

definition calculate_hash :: "crypto_ops \<Rightarrow> BatchHeader \<Rightarrow> bytes" where
  "calculate_hash CR h = sha256 CR
     (to_be_bytes (bh_index h) @ prev_hash h @ to_be_bytes (bh_timestamp h) @ payloads_root h @
      addr_bytes (authority h) @ vrf_output h @ vrf_proof h @ bh_signature h)"

record QuorumCertificate =
  qc_batch_hash :: bytes
  view_number :: u64
  qc_signatures :: "(Address \<times> bytes) list"

definition genesis_qc :: QuorumCertificate where
  "genesis_qc = \<lparr>qc_batch_hash = replicate 32 0, view_number = 0, qc_signatures = []\<rparr>"

record PayloadBatch =
  pb_header :: BatchHeader
  pb_payloads :: "AppPayload list"
  pb_justify :: QuorumCertificate
  pb_round :: u64

definition calculate_payloads_root :: "crypto_ops \<Rightarrow> AppPayload list \<Rightarrow> bytes" where
  "calculate_payloads_root CR ps = sha256 CR (concat (map (payload_hash CR) ps))"

record PendingBatch =
  pend_header :: BatchHeader
  pend_payloads :: "AppPayload list"
  parent_qc :: QuorumCertificate
  pend_round :: u64

record VelocityVote =
  round_id :: u64
  v_batch_hash :: bytes
  voter_address :: Address
  v_signature :: bytes

definition vote_bytes :: "VelocityVote \<Rightarrow> bytes \<Rightarrow> bytes" where
  "vote_bytes v pk = to_be_bytes (round_id v) @ v_batch_hash v @ pk"

definition sign_vote :: "crypto_ops \<Rightarrow> KeyPair \<Rightarrow> VelocityVote \<Rightarrow> rust_panic + VelocityVote" where
  "sign_vote CR kp v =
     bindR (public_key_bytes kp) (\<lambda>pk.
     bindR (keypair_sign CR kp (vote_bytes v pk)) (\<lambda>sig. Inr (v\<lparr>v_signature := sig\<rparr>)))"

record OptimisticConfirmation =
  oc_header :: BatchHeader
  payload_hashes :: "bytes list"
  oc_parent_qc :: QuorumCertificate
  oc_round :: u64

datatype ConsensusMessage =
    IntentBatchProposal PayloadBatch
  | VelocityVoteMsg VelocityVote
  | NewQuorumCertificate QuorumCertificate

text \<open>\<open>borsh\<close> is the serialization, which may fail; the default hash is all zeros.\<close>

definition message_hash :: "crypto_ops \<Rightarrow> (ConsensusMessage \<Rightarrow> bytes option) \<Rightarrow> ConsensusMessage \<Rightarrow> bytes" where
  "message_hash CR borsh m = (case borsh m of Some bs \<Rightarrow> sha256 CR bs | None \<Rightarrow> replicate 32 0)"

datatype ChainMessage = NewPayload AppPayload | NewConsensusMessage ConsensusMessage

section \<open>Genesis and network messages\<close>

type_synonym PeerId = string
type_synonym Multiaddr = string

record GenesisParameters =
  sub_committee_size :: nat
  proposer_timeout_ms :: u64

record GenesisAccount =
  ga_public_key :: string
  ga_vrf_public_key :: "string option"
  network_identity :: "string option"

record Genesis =
  genesis_time :: u64
  g_chain_id :: string
  parameters :: GenesisParameters
  accounts :: "(string \<times> GenesisAccount) list"

datatype SyncRequest =
    InformAboutPeers "string list"
  | ConsensusRequest ConsensusMessage
  | GetFullProposal bytes
  | FullProposalForCommittee OptimisticConfirmation "AppPayload list"
  | SubmitVote VelocityVote

datatype SyncResponse =
    Peers "string list"
  | ConsensusResponse "ConsensusMessage option"
  | FullProposal "PendingBatch option"
  | FullProposalReceivedAck
  | VoteAck
  | PeersReceivedAck

datatype P2pCommand =
    BroadcastConsensusMessage ConsensusMessage
  | SendDirectRequest PeerId SyncRequest
  | ApplyPenalty PeerId int
  | DialAddress Multiaddr
  | GetConnectedPeers

section \<open>What the sequencer relies on\<close>

text \<open>
  A signature made with the secret key of a key pair has the size of the scheme and verifies
  under its public key; a proof made with a secret verifies under the public key of that
  secret.  \<open>keys\<close> and \<open>vrf_keys\<close> are the pairs that key generation can give.
\<close>

locale signatures =
  fixes CR :: crypto_ops and keys :: "(bytes \<times> bytes) set" and vrf_keys :: "(bytes \<times> bytes) set"
  assumes key_sizes: "(pk, sk) \<in> keys \<Longrightarrow> length pk = PUBLIC_KEY_SIZE \<and> dil_pk_ok CR pk"
    and sign_size: "(pk, sk) \<in> keys \<Longrightarrow> length (dil_sign CR sk m) = SIGNATURE_SIZE"
    and sign_verifies: "(pk, sk) \<in> keys \<Longrightarrow> dil_sig_ok CR (dil_sign CR sk m) \<and> dil_verify CR pk m (dil_sign CR sk m)"
    and vrf_pk: "(vpk, vsk) \<in> vrf_keys \<Longrightarrow> vrf_pk_ok CR vpk"
    and vrf_verifies: "(vpk, vsk) \<in> vrf_keys \<Longrightarrow> vrf_sign CR vsk ctx m = (out, prf) \<Longrightarrow>
      vrf_out_ok CR out \<and> vrf_proof_ok CR prf \<and> vrf_verify CR vpk ctx m out prf"
begin

lemma keypair_signs:
  assumes "(public_key kp, private_key kp) \<in> keys"
  shows "keypair_sign CR kp m = Inr (dil_sign CR (private_key kp) m)"
    and "verify_sig CR (public_key kp) m (dil_sign CR (private_key kp) m)"
    and "public_key_bytes kp = Inr (public_key kp)"
  using key_sizes [OF assms] sign_size [OF assms, of m] sign_verifies [OF assms, of m]
  by (simp_all add: keypair_sign_def verify_sig_def public_key_bytes_def)

lemma sign_vote_verifies:
  assumes "(public_key kp, private_key kp) \<in> keys"
  obtains v' where "sign_vote CR kp v = Inr v'" "v' = v\<lparr>v_signature := v_signature v'\<rparr>"
    "verify_sig CR (public_key kp) (vote_bytes v (public_key kp)) (v_signature v')"
  using that keypair_signs [OF assms] by (simp add: sign_vote_def)

end

section \<open>Round trips and injectivity\<close>

lemma pk_roundtrip:
  assumes "length (pk_bytes pk) = PUBLIC_KEY_SIZE"
  shows "pk_deserialize (pk_serialize pk @ rest) = Some (pk, rest)"
  using assms by (cases pk) (simp add: pk_deserialize_def pk_serialize_def)

text \<open>
  The signed bytes of a vote determine its round, and with hashes of one length also the
  batch and the key.
\<close>

lemma vote_bytes_inj:
  assumes "vote_bytes v pk = vote_bytes v' pk'" "length (v_batch_hash v) = length (v_batch_hash v')"
  shows "round_id v = round_id v'" "v_batch_hash v = v_batch_hash v'" "pk = pk'"
  using assms by (auto simp: vote_bytes_def to_be_bytes_inj)

end
