(* ===== verification/Peer_Book.thy ===== *)
theory Peer_Book
  imports Seq_Types
begin

text \<open>
  Peer scores and the address book of \<^verbatim>\<open>evice-multi-sequencer/src/p2p/types.rs\<close>.  The
  address book and the accounts of the genesis are hash maps that are iterated: association
  lists with distinct keys, whose order is the unspecified iteration order.  Decoding of
  hexadecimal text and the parsing of multiaddresses are arguments.
\<close>

section \<open>Peer scores\<close>

definition INITIAL_PEER_SCORE :: int where "INITIAL_PEER_SCORE = 0"

definition MAX_PEER_SCORE :: int where "MAX_PEER_SCORE = 100"

definition BAN_THRESHOLD :: int where "BAN_THRESHOLD = - 50"

definition PENALTY_DESERIALIZATION_ERROR :: int where "PENALTY_DESERIALIZATION_ERROR = - 5"

definition REWARD_VALID_MESSAGE :: int where "REWARD_VALID_MESSAGE = 2"

definition BAN_DURATION :: nat where "BAN_DURATION = 1800"

definition NETWORK_STABILITY_WINDOW :: nat where "NETWORK_STABILITY_WINDOW = 3"

record PeerInfo =
  score :: int
  is_banned :: bool
  ban_until :: "nat option"

definition new_peer :: PeerInfo where
  "new_peer = \<lparr>score = INITIAL_PEER_SCORE, is_banned = False, ban_until = None\<rparr>"

text \<open>\<open>now\<close> is the time in seconds.\<close>

definition apply_penalty :: "build_profile \<Rightarrow> nat \<Rightarrow> int \<Rightarrow> PeerInfo \<Rightarrow> rust_panic + PeerInfo" where
  "apply_penalty prof now penalty p =
     bindR (add_i32 prof (score p) penalty) (\<lambda>s.
       let s' = max s (BAN_THRESHOLD - 1); p' = p\<lparr>score := s'\<rparr>
       in Inr (if s' \<le> BAN_THRESHOLD then p'\<lparr>is_banned := True, ban_until := Some (now + BAN_DURATION)\<rparr> else p'))"

definition apply_reward :: "build_profile \<Rightarrow> int \<Rightarrow> PeerInfo \<Rightarrow> rust_panic + PeerInfo" where
  "apply_reward prof reward p =
     bindR (add_i32 prof (score p) reward) (\<lambda>s. Inr (p\<lparr>score := min s MAX_PEER_SCORE\<rparr>))"

text \<open>The range of scores the two operations keep, and what banned means for the score.\<close>

definition peer_ok :: "PeerInfo \<Rightarrow> bool" where
  "peer_ok p \<longleftrightarrow> BAN_THRESHOLD - 1 \<le> score p \<and> score p \<le> MAX_PEER_SCORE \<and>
     (score p \<le> BAN_THRESHOLD \<longrightarrow> is_banned p)"

datatype peer_event = Penalty nat int | Reward int

fun peer_step :: "build_profile \<Rightarrow> peer_event \<Rightarrow> PeerInfo \<Rightarrow> rust_panic + PeerInfo" where
  "peer_step prof (Penalty now n) p = apply_penalty prof now n p"
| "peer_step prof (Reward n) p = apply_reward prof n p"

text \<open>The penalties are negative and the rewards positive, both far from the ends of the range.\<close>

fun event_ok :: "peer_event \<Rightarrow> bool" where
  "event_ok (Penalty _ n) \<longleftrightarrow> - 1000 \<le> n \<and> n \<le> 0"
| "event_ok (Reward n) \<longleftrightarrow> 0 \<le> n \<and> n \<le> 1000"

lemmas score_defs = BAN_THRESHOLD_def MAX_PEER_SCORE_def INITIAL_PEER_SCORE_def i32_ok_def

lemma peer_step_ok:
  assumes "peer_ok p" "event_ok e"
  shows "\<exists>p'. peer_step prof e p = Inr p' \<and> peer_ok p' \<and> (is_banned p \<longrightarrow> is_banned p')"
proof (cases e)
  case (Penalty now n)
  have "i32_ok (score p + n)"
    using assms Penalty by (auto simp: peer_ok_def score_defs)
  then have "add_i32 prof (score p) n = Inr (score p + n)"
    by (rule add_i32_exact)
  with assms Penalty show ?thesis
    by (auto simp: apply_penalty_def peer_ok_def score_defs Let_def)
next
  case (Reward n)
  have "i32_ok (score p + n)"
    using assms Reward by (auto simp: peer_ok_def score_defs)
  then have "add_i32 prof (score p) n = Inr (score p + n)"
    by (rule add_i32_exact)
  with assms Reward show ?thesis
    by (auto simp: apply_reward_def peer_ok_def score_defs)
qed

interpretation peer: panic_free "peer_step prof" peer_ok event_ok for prof
  using peer_step_ok by unfold_locales metis

section \<open>The address book\<close>

record PeerIdentityInfo =
  pi_peer_id :: PeerId
  pi_multiaddr :: Multiaddr
  pi_public_key :: "bytes option"
  pi_vrf_public_key :: "bytes option"
  pi_version :: u64

type_synonym AddressBook = "(Address \<times> PeerIdentityInfo) list"

definition book_ok :: "AddressBook \<Rightarrow> bool" where
  "book_ok ab \<longleftrightarrow> distinct (map fst ab)"

text \<open>\<^verbatim>\<open>trim_start_matches("0x")\<close> takes off every leading occurrence.\<close>

fun trim_0x :: "string \<Rightarrow> string" where
  "trim_0x (c # d # s) = (if c = CHR ''0'' \<and> d = CHR ''x'' then trim_0x s else c # d # s)"
| "trim_0x s = s"

text \<open>
  Hexadecimal decoding, parsing of multiaddresses, and the first \<^verbatim>\<open>/p2p\<close> component of one.
\<close>

record text_ops =
  hex_decode :: "string \<Rightarrow> bytes option"
  parse_multiaddr :: "string \<Rightarrow> Multiaddr option"
  p2p_component :: "Multiaddr \<Rightarrow> PeerId option"

text \<open>What an account contributes: its address, the peer, the multiaddress and the keys.\<close>

definition account_identity ::
  "text_ops \<Rightarrow> string \<Rightarrow> GenesisAccount \<Rightarrow> (Address \<times> PeerIdentityInfo) option" where
  "account_identity T addr_str acc =
     (case network_identity acc of
        None \<Rightarrow> None
      | Some multiaddr_str \<Rightarrow>
          (case hex_decode T (trim_0x addr_str) of
             None \<Rightarrow> None
           | Some addr \<Rightarrow>
               if length addr \<noteq> 20 then None
               else (case parse_multiaddr T multiaddr_str of
                  None \<Rightarrow> None
                | Some multiaddr \<Rightarrow>
                    (case p2p_component T multiaddr of
                       None \<Rightarrow> None
                     | Some peer_id \<Rightarrow> Some (Address addr,
                         \<lparr>pi_peer_id = peer_id, pi_multiaddr = multiaddr,
                          pi_public_key = hex_decode T (trim_0x (ga_public_key acc)),
                          pi_vrf_public_key = Option.bind (ga_vrf_public_key acc) (\<lambda>k. hex_decode T (trim_0x k)),
                          pi_version = 0\<rparr>)))))"

text \<open>
  \<^verbatim>\<open>entry(..).or_insert_with(..)\<close>, then the multiaddress is replaced and the version raised
  when it differs; the version counter overflows like any sum.
\<close>

definition upsert_identity ::
  "build_profile \<Rightarrow> Address \<Rightarrow> PeerIdentityInfo \<Rightarrow> AddressBook \<Rightarrow> rust_panic + AddressBook" where
  "upsert_identity prof addr info ab =
     (case map_of ab addr of
        None \<Rightarrow> Inr (ab @ [(addr, info)])
      | Some old \<Rightarrow>
          if pi_multiaddr old = pi_multiaddr info then Inr ab
          else bindR (add_u64 prof (pi_version old) 1) (\<lambda>v.
            Inr (AList.update addr (old\<lparr>pi_multiaddr := pi_multiaddr info, pi_version := v\<rparr>) ab)))"

fun update_accounts ::
  "build_profile \<Rightarrow> text_ops \<Rightarrow> (string \<times> GenesisAccount) list \<Rightarrow> AddressBook \<Rightarrow> rust_panic + AddressBook" where
  "update_accounts prof T [] ab = Inr ab"
| "update_accounts prof T ((addr_str, acc) # accs) ab =
     bindR (case account_identity T addr_str acc of
              None \<Rightarrow> Inr ab
            | Some (addr, info) \<Rightarrow> upsert_identity prof addr info ab)
       (update_accounts prof T accs)"

definition update_from_genesis ::
  "build_profile \<Rightarrow> text_ops \<Rightarrow> Genesis \<Rightarrow> AddressBook \<Rightarrow> rust_panic + AddressBook" where
  "update_from_genesis prof T g ab = update_accounts prof T (accounts g) ab"

definition get_peer_id :: "AddressBook \<Rightarrow> Address \<Rightarrow> PeerId option" where
  "get_peer_id ab addr = map_option pi_peer_id (map_of ab addr)"

fun get_address :: "AddressBook \<Rightarrow> PeerId \<Rightarrow> Address option" where
  "get_address [] p = None"
| "get_address ((addr, info) # ab) p = (if pi_peer_id info = p then Some addr else get_address ab p)"

definition get_all_peer_ids :: "AddressBook \<Rightarrow> PeerId list" where
  "get_all_peer_ids ab = map (pi_peer_id \<circ> snd) ab"

section \<open>Properties of scores and of the address book\<close>

text \<open>
  Under the penalties and rewards the node applies, the score of a peer never
  overflows and stays between -51 and 100, and a peer whose score has reached the
  threshold is marked as banned.
\<close>

lemma peer_score_bounds:
  assumes "\<forall>e \<in> set es. event_ok e"
  shows "\<exists>p. run_steps (peer_step prof) es new_peer = Inr p \<and> - 51 \<le> score p \<and> score p \<le> 100 \<and>
    (score p \<le> - 50 \<longrightarrow> is_banned p)"
proof -
  have "peer_ok new_peer"
    by (simp add: peer_ok_def new_peer_def score_defs)
  from peer.run_safe [OF this assms, of prof] show ?thesis
    by (auto simp: peer_ok_def score_defs)
qed

text \<open>
  When an account of the genesis is one of a validator with address \<open>a\<close>: it has a network identity that
  parses to a multiaddress with a peer, and the key it is listed under is the hexadecimal form of
  the twenty bytes of \<open>a\<close>.
\<close>

definition acc_multiaddr :: "text_ops \<Rightarrow> string \<times> GenesisAccount \<Rightarrow> Multiaddr option" where
  "acc_multiaddr T x = Option.bind (network_identity (snd x)) (parse_multiaddr T)"

definition acc_peer :: "text_ops \<Rightarrow> string \<times> GenesisAccount \<Rightarrow> PeerId option" where
  "acc_peer T x = Option.bind (acc_multiaddr T x) (p2p_component T)"

definition account_for :: "text_ops \<Rightarrow> Address \<Rightarrow> string \<times> GenesisAccount \<Rightarrow> bool" where
  "account_for T a x \<longleftrightarrow> length (addr_bytes a) = 20 \<and> hex_decode T (trim_0x (fst x)) = Some (addr_bytes a) \<and> acc_peer T x \<noteq> None"

text \<open>
  The entry for an address with the accounts \<open>xs\<close>: none without an account; otherwise the peer and the
  keys of the first one and the multiaddress of the last.
\<close>

definition entry_of :: "text_ops \<Rightarrow> (string \<times> GenesisAccount) list \<Rightarrow> PeerIdentityInfo option \<Rightarrow> bool" where
  "entry_of T xs entry \<longleftrightarrow>
     (if xs = [] then entry = None
      else \<exists>info. entry = Some info \<and> Some (pi_peer_id info) = acc_peer T (hd xs) \<and>
        pi_public_key info = hex_decode T (trim_0x (ga_public_key (snd (hd xs)))) \<and>
        pi_vrf_public_key info = Option.bind (ga_vrf_public_key (snd (hd xs))) (\<lambda>k. hex_decode T (trim_0x k)) \<and>
        Some (pi_multiaddr info) = acc_multiaddr T (last xs))"

lemma account_identity_None: "account_identity T s acc = None \<Longrightarrow> \<not> account_for T a (s, acc)"
  by (auto simp: account_identity_def account_for_def acc_peer_def acc_multiaddr_def split: option.splits if_splits)

lemma account_identity_Some:
  assumes "account_identity T s acc = Some (a, info)"
  shows "account_for T b (s, acc) \<longleftrightarrow> b = a" "entry_of T [(s, acc)] (Some info)" "pi_version info = 0"
  using assms
  by (auto simp: account_identity_def account_for_def entry_of_def acc_peer_def acc_multiaddr_def Address.expand
      split: option.splits if_splits)

text \<open>What the book says after some of the accounts.\<close>

definition entered :: "text_ops \<Rightarrow> (string \<times> GenesisAccount) list \<Rightarrow> AddressBook \<Rightarrow> bool" where
  "entered T xs ab \<longleftrightarrow> book_ok ab \<and>
     (\<forall>a. entry_of T (filter (account_for T a) xs) (map_of ab a)) \<and>
     (\<forall>a info. map_of ab a = Some info \<longrightarrow> unat (pi_version info) < length xs)"

lemma entry_of_snoc:
  assumes "entry_of T xs (Some old)" "entry_of T [x] (Some info)" "xs \<noteq> []"
  shows "entry_of T (xs @ [x]) (Some (old\<lparr>pi_multiaddr := pi_multiaddr info, pi_version := v\<rparr>))"
    "pi_multiaddr old = pi_multiaddr info \<Longrightarrow> entry_of T (xs @ [x]) (Some old)"
  using assms by (auto simp: entry_of_def)

lemma entered_upd:
  assumes "entered T xs ab" "\<And>b. account_for T b x \<longleftrightarrow> b = a" "book_ok ab'" "map_of ab' = (map_of ab)(a \<mapsto> info)"
    and "entry_of T (filter (account_for T a) xs @ [x]) (Some info)" "unat (pi_version info) \<le> length xs"
  shows "entered T (xs @ [x]) ab'"
  using assms by (auto simp: entered_def less_Suc_eq split: if_splits)

lemma upsert_entered:
  assumes "entered T xs ab" "account_identity T s acc = Some (a, info)" "length xs < 2 ^ 64"
  shows "\<exists>ab'. upsert_identity prof a info ab = Inr ab' \<and> entered T (xs @ [(s, acc)]) ab'"
proof -
  note new = account_identity_Some [OF assms(2)]
  note upd = entered_upd [OF assms(1) new(1)]
  let ?us = "filter (account_for T a) xs"
  have entry: "entry_of T ?us (map_of ab a)" and ok: "book_ok ab"
    using assms(1) by (simp_all add: entered_def)
  show ?thesis
  proof (cases "map_of ab a")
    case None
    moreover from None entry have "?us = []"
      by (auto simp: entry_of_def split: if_splits)
    moreover from None have "map_of (ab @ [(a, info)]) = (map_of ab)(a \<mapsto> info)" "a \<notin> fst ` set ab"
      by (auto simp: fun_eq_iff map_add_def map_of_eq_None_iff [symmetric] split: option.split)
    ultimately have "entered T (xs @ [(s, acc)]) (ab @ [(a, info)])"
      using new(2,3) ok by (intro upd [where info = info]) (simp_all add: book_ok_def)
    with None show ?thesis
      by (simp add: upsert_identity_def)
  next
    case (Some i)
    with entry have us: "?us \<noteq> []" "entry_of T ?us (Some i)"
      by (auto simp: entry_of_def)
    have v: "unat (pi_version i) < length xs"
      using assms(1) Some by (simp add: entered_def)
    show ?thesis
    proof (cases "pi_multiaddr i = pi_multiaddr info")
      case True
      with Some us v new(2) ok have "entered T (xs @ [(s, acc)]) ab"
        by (intro upd [where info = i]) (auto simp: fun_eq_iff intro: entry_of_snoc)
      with Some True show ?thesis
        by (simp add: upsert_identity_def)
    next
      case False
      let ?i = "i\<lparr>pi_multiaddr := pi_multiaddr info, pi_version := pi_version i + 1\<rparr>"
      have "unat (pi_version i) + 1 < 2 ^ 64"
        using v assms(3) by linarith
      then have add: "add_u64 prof (pi_version i) 1 = Inr (pi_version i + 1)" and "unat (pi_version i + 1) = unat (pi_version i) + 1"
        by (simp_all add: add_u64_def unat_word_ariths)
      with us v new(2) ok have "entered T (xs @ [(s, acc)]) (AList.update a ?i ab)"
        by (intro upd [where info = ?i])
          (auto simp: book_ok_def distinct_update update_conv' intro: entry_of_snoc)
      with Some False add show ?thesis
        by (simp add: upsert_identity_def)
    qed
  qed
qed

lemma accounts_entered:
  assumes "entered T xs ab" "length (xs @ accs) < 2 ^ 64"
  shows "\<exists>ab'. update_accounts prof T accs ab = Inr ab' \<and> entered T (xs @ accs) ab'"
  using assms
proof (induction accs arbitrary: xs ab)
  case (Cons x accs)
  obtain s acc where x: "x = (s, acc)"
    by fastforce
  have "\<exists>ab1. (case account_identity T s acc of None \<Rightarrow> Inr ab | Some (a, info) \<Rightarrow> upsert_identity prof a info ab) = Inr ab1 \<and>
    entered T (xs @ [x]) ab1"
  proof (cases "account_identity T s acc")
    case None
    with Cons.prems(1) account_identity_None [OF None] show ?thesis
      by (auto simp: entered_def x less_Suc_eq)
  next
    case (Some ai)
    obtain a info where "ai = (a, info)"
      by fastforce
    with upsert_entered [OF Cons.prems(1), of s acc a info prof] Some Cons.prems(2) show ?thesis
      by (simp add: x)
  qed
  then obtain ab1 where "(case account_identity T s acc of None \<Rightarrow> Inr ab | Some (a, info) \<Rightarrow> upsert_identity prof a info ab) = Inr ab1"
    "entered T (xs @ [x]) ab1"
    by blast
  with Cons.IH [of "xs @ [x]" ab1] Cons.prems(2) show ?case
    by (simp add: x)
qed simp

text \<open>
  C35: the address book a node builds from its genesis, for any genesis and in any order in which its
  accounts are visited.  It is built without a panic and lists every address once.  An address is
  listed exactly when an account decodes to it: a key of twenty bytes and a network identity with a peer.
  Its entry has the peer and the keys of the first such account and the multiaddress of the
  last one, so two accounts of one address give an entry that belongs to neither.
\<close>

theorem update_from_genesis_exact:
  assumes "length (accounts g) < 2 ^ 64"
  shows "\<exists>ab. update_from_genesis prof T g [] = Inr ab \<and> distinct (map fst ab) \<and>
    (\<forall>a. entry_of T (filter (account_for T a) (accounts g)) (map_of ab a))"
proof -
  have "entered T [] []"
    by (simp add: entered_def book_ok_def entry_of_def)
  from accounts_entered [OF this, of "accounts g" prof] assms show ?thesis
    by (auto simp: update_from_genesis_def entered_def book_ok_def)
qed

definition sample_text :: text_ops where
  "sample_text = \<lparr>hex_decode = (\<lambda>s. Some (map of_char s)), parse_multiaddr = Some, p2p_component = Some\<rparr>"

text \<open>One address, listed with and without the prefix.\<close>

definition sample_genesis :: Genesis where
  "sample_genesis = \<lparr>genesis_time = 0, g_chain_id = ''t'', parameters = \<lparr>sub_committee_size = 6, proposer_timeout_ms = 1200\<rparr>,
     accounts = [(''0xaaaaaaaaaaaaaaaaaaaa'', \<lparr>ga_public_key = ''k'', ga_vrf_public_key = None, network_identity = Some ''m''\<rparr>),
       (''aaaaaaaaaaaaaaaaaaaa'', \<lparr>ga_public_key = ''l'', ga_vrf_public_key = None, network_identity = Some ''n''\<rparr>)]\<rparr>"

theorem update_from_genesis_exact_witness:
  "\<exists>ab info. update_from_genesis Debug sample_text sample_genesis [] = Inr ab \<and>
     map_of ab (Address (map of_char ''aaaaaaaaaaaaaaaaaaaa'')) = Some info \<and> pi_peer_id info = ''m'' \<and> pi_multiaddr info = ''n''"
proof -
  let ?a = "Address (map of_char ''aaaaaaaaaaaaaaaaaaaa'')" and ?xs = "accounts sample_genesis"
  have both: "filter (account_for sample_text ?a) ?xs = ?xs"
    by (simp add: sample_genesis_def sample_text_def account_for_def acc_peer_def acc_multiaddr_def)
  have "length ?xs < 2 ^ 64"
    by (simp add: sample_genesis_def)
  then obtain ab where ab: "update_from_genesis Debug sample_text sample_genesis [] = Inr ab"
    "entry_of sample_text (filter (account_for sample_text ?a) ?xs) (map_of ab ?a)"
    using update_from_genesis_exact [of sample_genesis Debug sample_text] by blast
  have "?xs \<noteq> []" "acc_peer sample_text (hd ?xs) = Some ''m''" "acc_multiaddr sample_text (last ?xs) = Some ''n''"
    by (simp_all add: sample_genesis_def sample_text_def acc_peer_def acc_multiaddr_def)
  with ab(2) [unfolded both entry_of_def] ab(1) show ?thesis
    by (metis option.inject)
qed

text \<open>
  An account whose key does not decode to twenty bytes is passed over, so a genesis
  that lists its validators under anything else leaves the address book empty.
\<close>

lemma genesis_without_addresses:
  assumes "\<forall>(addr_str, acc) \<in> set (accounts g). \<forall>bs. hex_decode T (trim_0x addr_str) = Some bs \<longrightarrow> length bs \<noteq> 20"
  shows "update_from_genesis prof T g [] = Inr []"
proof -
  have "update_accounts prof T accs ab = Inr ab" if "set accs \<subseteq> set (accounts g)" for accs ab
    using that
  proof (induction accs)
    case (Cons a accs)
    obtain addr_str acc where a: "a = (addr_str, acc)"
      by fastforce
    with Cons.prems assms have "account_identity T addr_str acc = None"
      by (fastforce simp: account_identity_def split: option.splits)
    with Cons a show ?case
      by simp
  qed simp
  then show ?thesis
    by (simp add: update_from_genesis_def)
qed

end
