(* ===== verification/Consensus.thy ===== *)
theory Consensus
  imports Peer_Book "HOL-Library.Multiset"
begin

text \<open>
  The consensus engine of \<^verbatim>\<open>evice-multi-sequencer/src/consensus\<close> (\<^verbatim>\<open>state.rs\<close> and
  \<^verbatim>\<open>engine.rs\<close>).  The engine runs as many asynchronous tasks over shared state behind
  locks; a task is modelled by the sequence of its critical sections, each an atomic
  \<open>task_step\<close> that returns the new state and the tasks that continue or are spawned.  Running
  a task to its end without interruption is \<open>exec_tasks\<close>; arbitrary interleavings are the
  relation \<open>consensus_step\<close> of the theory \<open>Consensus_Safety\<close>.
\<close>

section \<open>State\<close>

text \<open>
  What is outside the sources: cryptography, serialization, the shuffle of a seeded
  generator, the cache of recent hashes, whether log messages are formatted, whether the
  channel to the network task is open, and the build profile.
\<close>

record 'c lru_ops =
  lru_new :: 'c
  lru_contains :: "'c \<Rightarrow> bytes \<Rightarrow> bool"
  lru_put :: "bytes \<Rightarrow> 'c \<Rightarrow> 'c"

record 'c externals =
  x_crypto :: crypto_ops
  x_borsh :: "ConsensusMessage \<Rightarrow> bytes option"
  x_shuffle :: "bytes \<Rightarrow> Address list \<Rightarrow> Address list"
  x_lru :: "'c lru_ops"
  x_log_on :: bool
  x_p2p_open :: bool
  x_profile :: build_profile

text \<open>The fields of the engine that do not change while it runs.\<close>

record ConsensusEngine =
  my_address :: Address
  validator_keys :: ValidatorKeys
  address_book :: AddressBook
  chain_id :: string
  genesis_params :: GenesisParameters

text \<open>
  The shared state.  \<open>p2p_out\<close> lists the commands sent to the network task, \<open>task_panics\<close> the
  panics that ended a task; neither is read by the engine.
\<close>

record 'c CoreState =
  current_round :: u64
  current_step :: u64
  step_start_time :: nat
  highest_seen_qc :: QuorumCertificate
  velocity_votes :: "bytes \<rightharpoonup> VelocityVote list"
  processed_optimistic_batches :: "bytes set"
  optimistically_confirmed_batches :: "PayloadBatch list"
  pending_proposals :: "bytes \<rightharpoonup> PendingBatch"
  premature_proposals :: "u64 \<rightharpoonup> (ConsensusMessage \<times> PeerId) list"
  stale_qc_request :: "bytes \<rightharpoonup> u64 \<times> nat"
  recently_processed_hashes :: 'c
  mempool :: "AppPayload list"
  p2p_out :: "P2pCommand list"
  task_panics :: "rust_panic list"

definition MAX_CONFIRMED_BATCHES :: nat where
  "MAX_CONFIRMED_BATCHES = 256"

definition consensus_state_new :: "'c lru_ops \<Rightarrow> nat \<Rightarrow> QuorumCertificate \<Rightarrow> AppPayload list \<Rightarrow> 'c CoreState" where
  "consensus_state_new L now initial_qc pool =
     \<lparr>current_round = 0, current_step = 0, step_start_time = now, highest_seen_qc = initial_qc,
      velocity_votes = Map.empty, processed_optimistic_batches = {}, optimistically_confirmed_batches = [],
      pending_proposals = Map.empty, premature_proposals = Map.empty, stale_qc_request = Map.empty,
      recently_processed_hashes = lru_new L, mempool = pool, p2p_out = [], task_panics = []\<rparr>"

definition prune_stale_data :: "'c CoreState \<Rightarrow> 'c CoreState" where
  "prune_stale_data n =
     n\<lparr>velocity_votes := (\<lambda>h. if h \<in> processed_optimistic_batches n then None else velocity_votes n h),
       optimistically_confirmed_batches :=
         (if length (optimistically_confirmed_batches n) > MAX_CONFIRMED_BATCHES
          then drop (length (optimistically_confirmed_batches n) - MAX_CONFIRMED_BATCHES)
                 (optimistically_confirmed_batches n)
          else optimistically_confirmed_batches n)\<rparr>"

definition prune_confirmed_proposals :: "bytes set \<Rightarrow> 'c CoreState \<Rightarrow> 'c CoreState" where
  "prune_confirmed_proposals confirmed n =
     n\<lparr>pending_proposals := (\<lambda>h. if h \<in> confirmed then None else pending_proposals n h)\<rparr>"

definition p2p_send :: "'c externals \<Rightarrow> P2pCommand \<Rightarrow> 'c CoreState \<Rightarrow> 'c CoreState" where
  "p2p_send X cmd n = (if x_p2p_open X then n\<lparr>p2p_out := p2p_out n @ [cmd]\<rparr> else n)"

definition panic :: "rust_panic \<Rightarrow> 'c CoreState \<Rightarrow> 'c CoreState" where
  "panic e n = n\<lparr>task_panics := task_panics n @ [e]\<rparr>"

definition push_vote :: "bytes \<Rightarrow> VelocityVote \<Rightarrow> 'c CoreState \<Rightarrow> 'c CoreState" where
  "push_vote h v n =
     n\<lparr>velocity_votes := (velocity_votes n)(h \<mapsto>
        (case velocity_votes n h of None \<Rightarrow> [] | Some vs \<Rightarrow> vs) @ [v])\<rparr>"

text \<open>A log message that shows the first four bytes of a hash.\<close>

definition short_hash :: "'c externals \<Rightarrow> bytes \<Rightarrow> bool" where
  "short_hash X h \<longleftrightarrow> x_log_on X \<and> length h < 4"

section \<open>Verification\<close>

definition book_key :: "AddressBook \<Rightarrow> Address \<Rightarrow> bytes option" where
  "book_key ab a =
     (case map_of ab a of
        None \<Rightarrow> None
      | Some info \<Rightarrow>
          (case pi_public_key info of
             Some pk \<Rightarrow> if length pk = PUBLIC_KEY_SIZE then Some pk else None
           | None \<Rightarrow> None))"

definition verify_vote_signature ::
  "crypto_ops \<Rightarrow> AddressBook \<Rightarrow> Address \<Rightarrow> u64 \<Rightarrow> bytes \<Rightarrow> bytes \<Rightarrow> bool" where
  "verify_vote_signature CR ab voter rnd h sig =
     (case book_key ab voter of
        None \<Rightarrow> False
      | Some pk \<Rightarrow>
          let dummy_vote = \<lparr>round_id = rnd, v_batch_hash = h, voter_address = voter, v_signature = []\<rparr>
          in verify_sig CR pk (vote_bytes dummy_vote pk) sig)"

definition vrf_context :: bytes where
  "vrf_context = map of_char ''evice-vrf''"

definition verify_batch_signature :: "crypto_ops \<Rightarrow> AddressBook \<Rightarrow> BatchHeader \<Rightarrow> bool" where
  "verify_batch_signature CR ab h =
     (case map_of ab (authority h) of
        None \<Rightarrow> False
      | Some info \<Rightarrow>
          (case book_key ab (authority h) of
             None \<Rightarrow> False
           | Some pk \<Rightarrow>
               (case pi_vrf_public_key info of
                  None \<Rightarrow> False
                | Some vpk \<Rightarrow>
                    if \<not> vrf_pk_ok CR vpk then False
                    else if \<not> vrf_out_ok CR (vrf_output h) then False
                    else if \<not> vrf_proof_ok CR (vrf_proof h) then False
                    else if \<not> vrf_verify CR vpk vrf_context (prev_hash h) (vrf_output h) (vrf_proof h) then False
                    else verify_sig CR pk (canonical_bytes_for_signing h) (bh_signature h))))"

definition required_quorum :: "AddressBook \<Rightarrow> nat" where
  "required_quorum ab = (let total = length ab in if total = 0 then 1 else total * 2 div 3 + 1)"

text \<open>The count of a certificate: each voter is looked at once, at its first signature.\<close>

fun count_valid ::
  "crypto_ops \<Rightarrow> AddressBook \<Rightarrow> u64 \<Rightarrow> bytes \<Rightarrow> Address set \<Rightarrow> (Address \<times> bytes) list \<Rightarrow> nat" where
  "count_valid CR ab view h seen [] = 0"
| "count_valid CR ab view h seen ((a, sig) # sigs) =
     (if a \<in> seen then count_valid CR ab view h seen sigs
      else (if verify_vote_signature CR ab a view h sig then 1 else 0) +
           count_valid CR ab view h (insert a seen) sigs)"

definition qc_valid :: "crypto_ops \<Rightarrow> AddressBook \<Rightarrow> QuorumCertificate \<Rightarrow> bool" where
  "qc_valid CR ab qc \<longleftrightarrow>
     required_quorum ab \<le> count_valid CR ab (view_number qc) (qc_batch_hash qc) {} (qc_signatures qc)"

section \<open>Election\<close>

definition determine_sub_committee :: "'c externals \<Rightarrow> ConsensusEngine \<Rightarrow> u64 \<Rightarrow> bytes \<Rightarrow> Address list" where
  "determine_sub_committee X E rnd seed_hash =
     (let validators = map fst (address_book E)
      in if validators = [] then []
         else let seed = sha256 (x_crypto X) (seed_hash @ to_be_bytes rnd)
              in take (sub_committee_size (genesis_params E)) (x_shuffle X seed (sort validators)))"

text \<open>The seed: the VRF output of the confirmed batch of the highest certificate, or its hash.\<close>

definition round_seed :: "'c externals \<Rightarrow> 'c CoreState \<Rightarrow> bytes" where
  "round_seed X n =
     (case find (\<lambda>b. calculate_hash (x_crypto X) (pb_header b) = qc_batch_hash (highest_seen_qc n))
             (rev (optimistically_confirmed_batches n)) of
        Some b \<Rightarrow> vrf_output (pb_header b)
      | None \<Rightarrow> qc_batch_hash (highest_seen_qc n))"

section \<open>Tasks\<close>

text \<open>
  One constructor per critical section, in the order of the code: messages, proposals,
  votes, certificates, then the driver and the proposer.  A number \<open>ts\<close> is the wall clock
  in milliseconds and \<open>now\<close> the monotonic clock.
\<close>

datatype task =
    HandleMessage ConsensusMessage PeerId nat
  | CacheMessage ConsensusMessage PeerId nat
  | CheckProposal PayloadBatch
  | InsertProposal PayloadBatch
  | CastVote bytes u64
  | BroadcastVote bytes VelocityVote
  | ProcessVotes bytes
  | ReadConfirmed
  | PruneProposals "bytes set"
  | CheckVote VelocityVote
  | VerifyVote VelocityVote
  | PushVote VelocityVote
  | VerifyQc QuorumCertificate PeerId nat
  | AnchorQc QuorumCertificate PeerId nat
  | RequestBatch QuorumCertificate PeerId nat
  | DriverTick nat u64
  | DriverApply u64 u64 nat u64
  | RoundStep u64 u64 u64
  | ElectProposer u64 u64 bytes u64
  | ProposeParent u64 u64
  | ProposeDrain u64 QuorumCertificate u64
  | ProposeBuild u64 QuorumCertificate "AppPayload list" u64
  | ProposeInsert PayloadBatch
  | BroadcastProposal PayloadBatch
  | SelfVote PayloadBatch

definition pending_of :: "PayloadBatch \<Rightarrow> PendingBatch" where
  "pending_of b = \<lparr>pend_header = pb_header b, pend_payloads = pb_payloads b, parent_qc = pb_justify b, pend_round = pb_round b\<rparr>"

definition unsigned_vote :: "ConsensusEngine \<Rightarrow> bytes \<Rightarrow> u64 \<Rightarrow> VelocityVote" where
  "unsigned_vote E h rnd = \<lparr>round_id = rnd, v_batch_hash = h, voter_address = my_address E,
     v_signature = replicate SIGNATURE_SIZE 0\<rparr>"

definition dispatch :: "ConsensusMessage \<Rightarrow> PeerId \<Rightarrow> nat \<Rightarrow> task" where
  "dispatch msg peer now =
     (case msg of
        IntentBatchProposal batch \<Rightarrow> CheckProposal batch
      | VelocityVoteMsg vote \<Rightarrow> CheckVote vote
      | NewQuorumCertificate qc \<Rightarrow> VerifyQc qc peer now)"

definition process_votes_for_batch :: "'c externals \<Rightarrow> ConsensusEngine \<Rightarrow> bytes \<Rightarrow> 'c CoreState \<Rightarrow> 'c CoreState \<times> task list" where
  "process_votes_for_batch X E h n =
     (if h \<in> processed_optimistic_batches n then (n, [])
      else case velocity_votes n h of
        None \<Rightarrow> (n, [])
      | Some votes \<Rightarrow>
          if length votes < required_quorum (address_book E) then (n, [])
          else if short_hash X h then (panic SliceLength n, [])
          else case pending_proposals n h of
            None \<Rightarrow> (n, [])
          | Some batch \<Rightarrow>
              let qc = \<lparr>qc_batch_hash = h, view_number = pend_round batch,
                        qc_signatures = map (\<lambda>v. (voter_address v, v_signature v)) votes\<rparr>;
                  payload_batch = \<lparr>pb_header = pend_header batch, pb_payloads = pend_payloads batch,
                        pb_justify = parent_qc batch, pb_round = pend_round batch\<rparr>;
                  n1 = n\<lparr>processed_optimistic_batches := insert h (processed_optimistic_batches n),
                         optimistically_confirmed_batches := optimistically_confirmed_batches n @ [payload_batch]\<rparr>;
                  n2 = (if view_number qc > view_number (highest_seen_qc n1) then n1\<lparr>highest_seen_qc := qc\<rparr> else n1);
                  n3 = p2p_send X (BroadcastConsensusMessage (NewQuorumCertificate qc)) n2
              in (prune_stale_data n3, [ReadConfirmed]))"

text \<open>The driver: advance on a certificate, on a timeout to the next proposer, after the last to the next round.\<close>

definition driver_decision :: "'c externals \<Rightarrow> ConsensusEngine \<Rightarrow> nat \<Rightarrow> 'c CoreState \<Rightarrow> rust_panic + (u64 \<times> u64) option" where
  "driver_decision X E now n =
     (let view = view_number (highest_seen_qc n)
      in if view \<ge> current_round n
         then bindR (add_u64 (x_profile X) view 1) (\<lambda>r. Inr (Some (r, 0)))
         else if now - step_start_time n > unat (proposer_timeout_ms (genesis_params E))
         then bindR (add_u64 (x_profile X) (current_step n) 1) (\<lambda>s.
                if unat s \<ge> sub_committee_size (genesis_params E)
                then bindR (add_u64 (x_profile X) (current_round n) 1) (\<lambda>r. Inr (Some (r, 0)))
                else Inr (Some (current_round n, s)))
         else Inr None)"

definition parent_link :: "'c externals \<Rightarrow> 'c CoreState \<Rightarrow> u64 \<times> bytes" where
  "parent_link X n =
     (case optimistically_confirmed_batches n of
        [] \<Rightarrow> (0, replicate 32 0)
      | bs \<Rightarrow> (bh_index (pb_header (last bs)), calculate_hash (x_crypto X) (pb_header (last bs))))"

definition proposal_header ::
  "'c externals \<Rightarrow> ConsensusEngine \<Rightarrow> u64 \<Rightarrow> bytes \<Rightarrow> u64 \<Rightarrow> AppPayload list \<Rightarrow> BatchHeader" where
  "proposal_header X E idx prev ts payloads =
     (case vrf_sign (x_crypto X) (vrf_secret (validator_keys E)) vrf_context prev of
        (out, prf) \<Rightarrow>
          \<lparr>bh_index = idx, prev_hash = prev, bh_timestamp = ts,
           payloads_root = calculate_payloads_root (x_crypto X) payloads, authority = my_address E,
           vrf_output = out, vrf_proof = prf, bh_signature = []\<rparr>)"

definition propose_build ::
  "'c externals \<Rightarrow> ConsensusEngine \<Rightarrow> u64 \<Rightarrow> QuorumCertificate \<Rightarrow> AppPayload list \<Rightarrow> u64 \<Rightarrow> 'c CoreState \<Rightarrow> rust_panic + PayloadBatch" where
  "propose_build X E rnd qc payloads ts n =
     bindR (add_u64 (x_profile X) (fst (parent_link X n)) 1) (\<lambda>idx.
       let header = proposal_header X E idx (snd (parent_link X n)) ts payloads
       in bindR (keypair_sign (x_crypto X) (signing_keys (validator_keys E)) (canonical_bytes_for_signing header)) (\<lambda>sig.
            Inr \<lparr>pb_header = header\<lparr>bh_signature := sig\<rparr>, pb_payloads = payloads, pb_justify = qc, pb_round = rnd\<rparr>))"

fun task_step :: "'c externals \<Rightarrow> ConsensusEngine \<Rightarrow> task \<Rightarrow> 'c CoreState \<Rightarrow> 'c CoreState \<times> task list" where
  "task_step X E (HandleMessage msg peer now) n =
     (if lru_contains (x_lru X) (recently_processed_hashes n) (message_hash (x_crypto X) (x_borsh X) msg)
      then (n, []) else (n, [CacheMessage msg peer now]))"
| "task_step X E (CacheMessage msg peer now) n =
     (let h = message_hash (x_crypto X) (x_borsh X) msg
      in if lru_contains (x_lru X) (recently_processed_hashes n) h then (n, [])
         else (n\<lparr>recently_processed_hashes := lru_put (x_lru X) h (recently_processed_hashes n)\<rparr>,
               [dispatch msg peer now]))"
| "task_step X E (CheckProposal b) n =
     (if verify_batch_signature (x_crypto X) (address_book E) (pb_header b) then (n, [InsertProposal b]) else (n, []))"
| "task_step X E (InsertProposal b) n =
     (let h = calculate_hash (x_crypto X) (pb_header b)
      in if pending_proposals n h \<noteq> None then (n, [])
         else (n\<lparr>pending_proposals := (pending_proposals n)(h \<mapsto> pending_of b)\<rparr>, [CastVote h (pb_round b)]))"
| "task_step X E (CastVote h rnd) n =
     (if short_hash X h then (panic SliceLength n, [])
      else case sign_vote (x_crypto X) (signing_keys (validator_keys E)) (unsigned_vote E h rnd) of
        Inl e \<Rightarrow> (panic e n, [])
      | Inr v \<Rightarrow> (push_vote h v n, [BroadcastVote h v]))"
| "task_step X E (BroadcastVote h v) n =
     (p2p_send X (BroadcastConsensusMessage (VelocityVoteMsg v)) n, [ProcessVotes h])"
| "task_step X E (ProcessVotes h) n = process_votes_for_batch X E h n"
| "task_step X E ReadConfirmed n = (n, [PruneProposals (processed_optimistic_batches n)])"
| "task_step X E (PruneProposals confirmed) n = (prune_confirmed_proposals confirmed n, [])"
| "task_step X E (CheckVote v) n =
     (if v_batch_hash v \<in> processed_optimistic_batches n then (n, []) else (n, [VerifyVote v]))"
| "task_step X E (VerifyVote v) n =
     (if verify_vote_signature (x_crypto X) (address_book E) (voter_address v) (round_id v) (v_batch_hash v) (v_signature v)
      then (n, [PushVote v]) else (n, []))"
| "task_step X E (PushVote v) n =
     (case velocity_votes n (v_batch_hash v) of
        None \<Rightarrow> (push_vote (v_batch_hash v) v n, [ProcessVotes (v_batch_hash v)])
      | Some vs \<Rightarrow>
          ((if \<exists>v' \<in> set vs. voter_address v' = voter_address v then n else push_vote (v_batch_hash v) v n),
           [ProcessVotes (v_batch_hash v)]))"
| "task_step X E (VerifyQc qc peer now) n =
     (if qc_valid (x_crypto X) (address_book E) qc then (n, [AnchorQc qc peer now])
      else (p2p_send X (ApplyPenalty peer (- 50)) n, []))"
| "task_step X E (AnchorQc qc peer now) n =
     (if view_number qc > view_number (highest_seen_qc n)
      then (n\<lparr>highest_seen_qc := qc\<rparr>,
            if pending_proposals n (qc_batch_hash qc) \<noteq> None then [] else [RequestBatch qc peer now])
      else (n, []))"
| "task_step X E (RequestBatch qc peer now) n =
     (if short_hash X (qc_batch_hash qc) then (panic SliceLength n, [])
      else (p2p_send X (SendDirectRequest peer (GetFullProposal (qc_batch_hash qc)))
              (n\<lparr>stale_qc_request := (stale_qc_request n)(qc_batch_hash qc \<mapsto> (view_number qc, now))\<rparr>), []))"
| "task_step X E (DriverTick now ts) n =
     (case driver_decision X E now n of
        Inl e \<Rightarrow> (panic e n, [])
      | Inr None \<Rightarrow> (n, [])
      | Inr (Some (r, s)) \<Rightarrow> (n, [DriverApply r s now ts]))"
| "task_step X E (DriverApply r s now ts) n =
     (n\<lparr>current_round := r, current_step := s, step_start_time := now,
        premature_proposals := (premature_proposals n)(r := None)\<rparr>,
      (case premature_proposals n r of None \<Rightarrow> [] | Some ps \<Rightarrow> map (\<lambda>(m, p). HandleMessage m p now) ps) @
      [RoundStep r s ts])"
| "task_step X E (RoundStep r s ts) n =
     (if current_round n \<noteq> r \<or> current_step n \<noteq> s then (n, [])
      else (n, [ElectProposer r s (round_seed X n) ts]))"
| "task_step X E (ElectProposer r s seed ts) n =
     (let committee = determine_sub_committee X E r seed
      in if unat s < length committee \<and> committee ! unat s = my_address E then (n, [ProposeParent r ts]) else (n, []))"
| "task_step X E (ProposeParent r ts) n = (n, [ProposeDrain r (highest_seen_qc n) ts])"
| "task_step X E (ProposeDrain r qc ts) n =
     (n\<lparr>mempool := drop (min (length (mempool n)) 100) (mempool n)\<rparr>,
      [ProposeBuild r qc (take (min (length (mempool n)) 100) (mempool n)) ts])"
| "task_step X E (ProposeBuild r qc payloads ts) n =
     (case propose_build X E r qc payloads ts n of
        Inl e \<Rightarrow> (panic e n, [])
      | Inr b \<Rightarrow> (n, [ProposeInsert b]))"
| "task_step X E (ProposeInsert b) n =
     (let h = calculate_hash (x_crypto X) (pb_header b)
      in if short_hash X h then (panic SliceLength n, [])
         else (n\<lparr>pending_proposals := (pending_proposals n)(h \<mapsto> pending_of b)\<rparr>, [BroadcastProposal b]))"
| "task_step X E (BroadcastProposal b) n =
     (p2p_send X (BroadcastConsensusMessage (IntentBatchProposal b)) n, [SelfVote b])"
| "task_step X E (SelfVote b) n =
     (let h = calculate_hash (x_crypto X) (pb_header b)
      in case sign_vote (x_crypto X) (signing_keys (validator_keys E)) (unsigned_vote E h (pb_round b)) of
           Inl e \<Rightarrow> (panic e n, [])
         | Inr v \<Rightarrow> (push_vote h v n, [ProcessVotes h]))"

section \<open>Running tasks to their end\<close>

text \<open>Every critical section is followed only by sections of a lower rank.\<close>

fun rank :: "task \<Rightarrow> nat" where
  "rank (PruneProposals _) = 0"
| "rank (RequestBatch _ _ _) = 0"
| "rank ReadConfirmed = 1"
| "rank (AnchorQc _ _ _) = 1"
| "rank (ProcessVotes _) = 2"
| "rank (VerifyQc _ _ _) = 2"
| "rank (BroadcastVote _ _) = 3"
| "rank (PushVote _) = 3"
| "rank (SelfVote _) = 3"
| "rank (CastVote _ _) = 4"
| "rank (VerifyVote _) = 4"
| "rank (BroadcastProposal _) = 4"
| "rank (InsertProposal _) = 5"
| "rank (CheckVote _) = 5"
| "rank (ProposeInsert _) = 5"
| "rank (CheckProposal _) = 6"
| "rank (ProposeBuild _ _ _ _) = 6"
| "rank (CacheMessage _ _ _) = 7"
| "rank (ProposeDrain _ _ _) = 7"
| "rank (HandleMessage _ _ _) = 8"
| "rank (ProposeParent _ _) = 8"
| "rank (ElectProposer _ _ _ _) = 9"
| "rank (RoundStep _ _ _) = 10"
| "rank (DriverApply _ _ _ _) = 11"
| "rank (DriverTick _ _) = 12"

lemma process_votes_rank: "t \<in> set (snd (process_votes_for_batch X E h n)) \<Longrightarrow> rank t < 2"
  by (auto simp: process_votes_for_batch_def Let_def split: if_splits option.splits)

lemma task_step_rank: "t' \<in> set (snd (task_step X E t n)) \<Longrightarrow> rank t' < rank t"
  by (cases t) (auto simp: Let_def dispatch_def dest: process_votes_rank
      split: if_splits option.splits sum.splits ConsensusMessage.splits)

function exec_tasks :: "'c externals \<Rightarrow> ConsensusEngine \<Rightarrow> task list \<Rightarrow> 'c CoreState \<Rightarrow> 'c CoreState" where
  "exec_tasks X E [] n = n"
| "exec_tasks X E (t # ts) n =
     exec_tasks X E (snd (task_step X E t n) @ ts) (fst (task_step X E t n))"
  by pat_completeness auto
termination
proof (relation "inv_image (mult less_than) (\<lambda>(X, E, ts, n). mset (map rank ts))")
  show "wf (inv_image (mult less_than) (\<lambda>(X, E, ts, n). mset (map rank ts)))"
    by (simp add: wf_mult)
next
  fix X :: "'c externals" and E t ts n
  let ?new = "snd (task_step X E t n)"
  have "(mset (map rank ts) + mset (map rank ?new), mset (map rank ts) + {#rank t#}) \<in> mult less_than"
    by (rule one_step_implies_mult) (auto dest: task_step_rank)
  then show "((X, E, ?new @ ts, fst (task_step X E t n)), (X, E, t # ts, n))
      \<in> inv_image (mult less_than) (\<lambda>(X, E, ts, n). mset (map rank ts))"
    by (simp add: union_commute)
qed

lemma exec_tasks_append: "exec_tasks X E (ts @ ts') n = exec_tasks X E ts' (exec_tasks X E ts n)"
  by (induction X E ts n rule: exec_tasks.induct) auto

definition handle_consensus_message ::
  "'c externals \<Rightarrow> ConsensusEngine \<Rightarrow> ConsensusMessage \<Rightarrow> PeerId \<Rightarrow> nat \<Rightarrow> 'c CoreState \<Rightarrow> 'c CoreState" where
  "handle_consensus_message X E msg peer now n = exec_tasks X E [HandleMessage msg peer now] n"

definition handle_batch_proposal :: "'c externals \<Rightarrow> ConsensusEngine \<Rightarrow> PayloadBatch \<Rightarrow> 'c CoreState \<Rightarrow> 'c CoreState" where
  "handle_batch_proposal X E b n = exec_tasks X E [CheckProposal b] n"

definition handle_velocity_vote :: "'c externals \<Rightarrow> ConsensusEngine \<Rightarrow> VelocityVote \<Rightarrow> 'c CoreState \<Rightarrow> 'c CoreState" where
  "handle_velocity_vote X E v n = exec_tasks X E [CheckVote v] n"

definition handle_new_quorum_certificate ::
  "'c externals \<Rightarrow> ConsensusEngine \<Rightarrow> QuorumCertificate \<Rightarrow> PeerId \<Rightarrow> nat \<Rightarrow> 'c CoreState \<Rightarrow> 'c CoreState" where
  "handle_new_quorum_certificate X E qc peer now n = exec_tasks X E [VerifyQc qc peer now] n"

definition run_proposer_flow :: "'c externals \<Rightarrow> ConsensusEngine \<Rightarrow> u64 \<Rightarrow> u64 \<Rightarrow> 'c CoreState \<Rightarrow> 'c CoreState" where
  "run_proposer_flow X E r ts n = exec_tasks X E [ProposeParent r ts] n"

definition handle_round_step :: "'c externals \<Rightarrow> ConsensusEngine \<Rightarrow> u64 \<Rightarrow> u64 \<Rightarrow> u64 \<Rightarrow> 'c CoreState \<Rightarrow> 'c CoreState" where
  "handle_round_step X E r s ts n = exec_tasks X E [RoundStep r s ts] n"

definition driver_tick :: "'c externals \<Rightarrow> ConsensusEngine \<Rightarrow> nat \<Rightarrow> u64 \<Rightarrow> 'c CoreState \<Rightarrow> 'c CoreState" where
  "driver_tick X E now ts n = exec_tasks X E [DriverTick now ts] n"

end
