(* ===== verification/Consensus_Quorum.thy ===== *)
theory Consensus_Quorum
  imports Consensus
begin

text \<open>
  Quorums: what the threshold of \<^verbatim>\<open>process_votes_for_batch\<close> and
  \<^verbatim>\<open>handle_new_quorum_certificate\<close> guarantees about any two certificates.
\<close>

section \<open>Quorum systems\<close>

text \<open>A threshold above two thirds of a finite set of validators.\<close>

locale quorum_system =
  fixes validators :: "'a set" and threshold :: nat
  assumes finite_validators: "finite validators"
    and above_two_thirds: "2 * card validators < 3 * threshold"
begin

lemma overlap:
  assumes "Q \<subseteq> validators" "Q' \<subseteq> validators" "threshold \<le> card Q" "threshold \<le> card Q'"
  shows "card validators < 3 * card (Q \<inter> Q')"
proof -
  have fin: "finite Q" "finite Q'"
    using assms(1,2) finite_validators by (auto intro: finite_subset)
  have "card (Q \<union> Q') \<le> card validators"
    using assms(1,2) finite_validators by (intro card_mono) auto
  with card_Un_Int [OF fin] assms(3,4) above_two_thirds show ?thesis
    by linarith
qed

end

text \<open>The threshold of the code is such a threshold for the validators of every address book.\<close>

interpretation vq: quorum_system "fst ` set ab" "required_quorum ab" for ab :: AddressBook
proof
  have "card (fst ` set ab) \<le> length ab"
    using card_image_le [of "set ab" fst] card_length [of ab] by simp
  moreover have "2 * length ab < 3 * required_quorum ab"
    unfolding required_quorum_def Let_def by presburger
  ultimately show "2 * card (fst ` set ab) < 3 * required_quorum ab"
    by linarith
qed simp

section \<open>The voters of a certificate\<close>

definition qc_voters :: "crypto_ops \<Rightarrow> AddressBook \<Rightarrow> QuorumCertificate \<Rightarrow> Address set" where
  "qc_voters CR ab qc =
     {a. \<exists>sig. (a, sig) \<in> set (qc_signatures qc) \<and> verify_vote_signature CR ab a (view_number qc) (qc_batch_hash qc) sig}"

lemma verify_in_book: "verify_vote_signature CR ab a r h sig \<Longrightarrow> a \<in> fst ` set ab"
  by (auto simp: verify_vote_signature_def book_key_def split: option.splits dest: map_of_SomeD intro: rev_image_eqI)

lemma qc_voters_book: "qc_voters CR ab qc \<subseteq> fst ` set ab"
  by (auto simp: qc_voters_def dest: verify_in_book)

lemma count_valid_le:
  "count_valid CR ab view h seen sigs \<le>
     card ({a. \<exists>sig. (a, sig) \<in> set sigs \<and> verify_vote_signature CR ab a view h sig} - seen)"
proof (induction CR ab view h seen sigs rule: count_valid.induct)
  case (2 CR ab view h seen a sig sigs)
  let ?V = "\<lambda>sigs. {a. \<exists>sig. (a, sig) \<in> set sigs \<and> verify_vote_signature CR ab a view h sig}"
  have fin: "finite (?V sigs')" for sigs'
    by (rule finite_subset [of _ "fst ` set sigs'"]) (auto intro: rev_image_eqI)
  show ?case
  proof (cases "a \<in> seen")
    case True
    have "card (?V sigs - seen) \<le> card (?V ((a, sig) # sigs) - seen)"
      by (intro card_mono finite_Diff fin) auto
    with 2(1) True show ?thesis
      by simp
  next
    case False
    show ?thesis
    proof (cases "verify_vote_signature CR ab a view h sig")
      case True
      have "insert a (?V sigs - insert a seen) \<subseteq> ?V ((a, sig) # sigs) - seen"
        using True False by auto
      then have "card (insert a (?V sigs - insert a seen)) \<le> card (?V ((a, sig) # sigs) - seen)"
        by (intro card_mono finite_Diff fin) auto
      moreover have "card (insert a (?V sigs - insert a seen)) = Suc (card (?V sigs - insert a seen))"
        using fin by (intro card_insert_disjoint) auto
      ultimately show ?thesis
        using 2(2) True False by simp
    next
      case not_ok: False
      have "card (?V sigs - insert a seen) \<le> card (?V ((a, sig) # sigs) - seen)"
        by (intro card_mono finite_Diff fin) auto
      with 2(2) False not_ok show ?thesis
        by simp
    qed
  qed
qed simp

lemma qc_valid_voters: "qc_valid CR ab qc \<Longrightarrow> required_quorum ab \<le> card (qc_voters CR ab qc)"
  using count_valid_le [of CR ab "view_number qc" "qc_batch_hash qc" "{}" "qc_signatures qc"]
  by (simp add: qc_valid_def qc_voters_def)

text \<open>
  The other way round: distinct voters that all verify are all counted.
\<close>

lemma count_valid_all:
  assumes "\<forall>(a, sig) \<in> set sigs. verify_vote_signature CR ab a view h sig" "distinct (map fst sigs)"
    "fst ` set sigs \<inter> seen = {}"
  shows "count_valid CR ab view h seen sigs = length sigs"
  using assms by (induction sigs arbitrary: seen) auto

end
