(* ===== verification/Consensus_Safety.thy ===== *)
theory Consensus_Safety
  imports Consensus_Quorum
begin

text \<open>
  All interleavings of the engine's tasks, and the invariants that hold in every state they
  reach: proposals are stored under their own hash, a batch is confirmed at most once, the
  history is bounded, stored votes and the highest certificate are backed by signatures, and
  the view of the highest certificate never falls.
\<close>

section \<open>Interleavings\<close>

text \<open>
  A configuration is the shared state and the tasks in flight.  Any task may run its next
  critical section or be aborted before it, any message may arrive from any peer, and the driver
  ticks.  A section that sends a message finds room in the channel: the abort of a task that waits for
  room while it holds the lock is not one of the steps.
\<close>

type_synonym 'c config = "'c CoreState \<times> task list"

inductive consensus_step :: "'c externals \<Rightarrow> ConsensusEngine \<Rightarrow> 'c config \<Rightarrow> 'c config \<Rightarrow> bool"
  for X E where
  run: "task_step X E t n = (n', new) \<Longrightarrow> consensus_step X E (n, ts @ t # ts') (n', ts @ new @ ts')"
| abort: "consensus_step X E (n, ts @ t # ts') (n, ts @ ts')"
| receive: "consensus_step X E (n, ts) (n, ts @ [HandleMessage msg peer now])"
| tick: "consensus_step X E (n, ts) (n, ts @ [DriverTick now wall])"

inductive consensus_run :: "'c externals \<Rightarrow> ConsensusEngine \<Rightarrow> 'c config \<Rightarrow> 'c config \<Rightarrow> bool"
  for X E where
  start: "consensus_run X E c c"
| step: "consensus_run X E c c' \<Longrightarrow> consensus_step X E c' c'' \<Longrightarrow> consensus_run X E c c''"

lemma consensus_run_trans: "consensus_run X E c c' \<Longrightarrow> consensus_run X E c' c'' \<Longrightarrow> consensus_run X E c c''"
  by (rotate_tac, induction rule: consensus_run.induct) (auto intro: consensus_run.intros)

text \<open>Running tasks one after the other to their ends is one of the interleavings.\<close>

lemma exec_tasks_run: "consensus_run X E (n, ts) (exec_tasks X E ts n, [])"
proof (induction X E ts n rule: exec_tasks.induct)
  case (1 X E n)
  then show ?case
    by (simp add: consensus_run.start)
next
  case (2 X E t ts n)
  have "consensus_step X E (n, [] @ t # ts) (fst (task_step X E t n), [] @ snd (task_step X E t n) @ ts)"
    by (rule consensus_step.run) simp
  then have "consensus_run X E (n, t # ts) (fst (task_step X E t n), snd (task_step X E t n) @ ts)"
    using consensus_run.step [OF consensus_run.start] by simp
  with 2 show ?case
    by (simp add: consensus_run_trans)
qed

text \<open>
  The general argument: a property of the state together with a property of every task in
  flight, kept by each critical section, holds throughout.
\<close>

locale task_invariant =
  fixes X :: "'c externals" and E :: ConsensusEngine
    and I :: "'c CoreState \<Rightarrow> bool" and T :: "task \<Rightarrow> bool"
  assumes task_keeps: "I n \<Longrightarrow> T t \<Longrightarrow> task_step X E t n = (n', new) \<Longrightarrow> I n' \<and> (\<forall>t' \<in> set new. T t')"
    and task_message: "T (HandleMessage msg peer now)"
    and task_tick: "T (DriverTick now wall)"
begin

lemma step_keeps:
  assumes "consensus_step X E (n, ts) (n', ts')" "I n" "\<forall>t \<in> set ts. T t"
  shows "I n' \<and> (\<forall>t \<in> set ts'. T t)"
  using assms(1)
proof (cases rule: consensus_step.cases)
  case (run t new ts1 ts2)
  with assms(2,3) task_keeps [of n t n' new] show ?thesis
    by auto
qed (use assms task_message task_tick in auto)

lemma run_keeps:
  assumes "consensus_run X E c c'" "I (fst c)" "\<forall>t \<in> set (snd c). T t"
  shows "I (fst c') \<and> (\<forall>t \<in> set (snd c'). T t)"
  using assms
proof (induction rule: consensus_run.induct)
  case (step c c' c'')
  then show ?case
    using step_keeps [of "fst c'" "snd c'" "fst c''" "snd c''"] by simp
qed simp

lemma exec_keeps: "I n \<Longrightarrow> \<forall>t \<in> set ts. T t \<Longrightarrow> I (exec_tasks X E ts n)"
  using run_keeps [OF exec_tasks_run [of X E n ts]] by simp

end

section \<open>Confirmed batches\<close>

definition batch_hash :: "'c externals \<Rightarrow> PayloadBatch \<Rightarrow> bytes" where
  "batch_hash X b = calculate_hash (x_crypto X) (pb_header b)"

definition confirmed_ok :: "'c externals \<Rightarrow> 'c CoreState \<Rightarrow> bool" where
  "confirmed_ok X n \<longleftrightarrow>
     (\<forall>h p. pending_proposals n h = Some p \<longrightarrow> calculate_hash (x_crypto X) (pend_header p) = h) \<and>
     batch_hash X ` set (optimistically_confirmed_batches n) \<subseteq> processed_optimistic_batches n \<and>
     distinct (map (batch_hash X) (optimistically_confirmed_batches n)) \<and>
     length (optimistically_confirmed_batches n) \<le> MAX_CONFIRMED_BATCHES"

lemma p2p_send_frame [simp]:
  "pending_proposals (p2p_send X c n) = pending_proposals n"
  "processed_optimistic_batches (p2p_send X c n) = processed_optimistic_batches n"
  "optimistically_confirmed_batches (p2p_send X c n) = optimistically_confirmed_batches n"
  "velocity_votes (p2p_send X c n) = velocity_votes n"
  "highest_seen_qc (p2p_send X c n) = highest_seen_qc n"
  "current_round (p2p_send X c n) = current_round n" "current_step (p2p_send X c n) = current_step n"
  by (simp_all add: p2p_send_def)

lemma panic_frame [simp]:
  "pending_proposals (panic e n) = pending_proposals n"
  "processed_optimistic_batches (panic e n) = processed_optimistic_batches n"
  "optimistically_confirmed_batches (panic e n) = optimistically_confirmed_batches n"
  "velocity_votes (panic e n) = velocity_votes n"
  "highest_seen_qc (panic e n) = highest_seen_qc n"
  "current_round (panic e n) = current_round n" "current_step (panic e n) = current_step n"
  "p2p_out (panic e n) = p2p_out n"
  by (simp_all add: panic_def)

lemma push_vote_frame [simp]:
  "pending_proposals (push_vote h v n) = pending_proposals n"
  "processed_optimistic_batches (push_vote h v n) = processed_optimistic_batches n"
  "optimistically_confirmed_batches (push_vote h v n) = optimistically_confirmed_batches n"
  "highest_seen_qc (push_vote h v n) = highest_seen_qc n"
  "current_round (push_vote h v n) = current_round n" "current_step (push_vote h v n) = current_step n"
  "p2p_out (push_vote h v n) = p2p_out n"
  by (simp_all add: push_vote_def)

text \<open>What \<^verbatim>\<open>process_votes_for_batch\<close> does when it confirms a batch.\<close>

definition votes_qc :: "bytes \<Rightarrow> PendingBatch \<Rightarrow> VelocityVote list \<Rightarrow> QuorumCertificate" where
  "votes_qc h p vs = \<lparr>qc_batch_hash = h, view_number = pend_round p,
     qc_signatures = map (\<lambda>v. (voter_address v, v_signature v)) vs\<rparr>"

definition payload_batch_of :: "PendingBatch \<Rightarrow> PayloadBatch" where
  "payload_batch_of p = \<lparr>pb_header = pend_header p, pb_payloads = pend_payloads p, pb_justify = parent_qc p, pb_round = pend_round p\<rparr>"

lemma process_votes_cases:
  obtains (nothing) "process_votes_for_batch X E h n = (n, [])"
  | (panics) "process_votes_for_batch X E h n = (panic SliceLength n, [])"
  | (confirms) vs p n' where "process_votes_for_batch X E h n = (n', [ReadConfirmed])"
    "h \<notin> processed_optimistic_batches n" "velocity_votes n h = Some vs" "pending_proposals n h = Some p"
    "required_quorum (address_book E) \<le> length vs"
    "processed_optimistic_batches n' = insert h (processed_optimistic_batches n)"
    "optimistically_confirmed_batches n' =
       (let bs = optimistically_confirmed_batches n @ [payload_batch_of p] in drop (length bs - MAX_CONFIRMED_BATCHES) bs)"
    "pending_proposals n' = pending_proposals n"
    "velocity_votes n' = (\<lambda>k. if k \<in> insert h (processed_optimistic_batches n) then None else velocity_votes n k)"
    "highest_seen_qc n' = (if pend_round p > view_number (highest_seen_qc n) then votes_qc h p vs else highest_seen_qc n)"
    "current_round n' = current_round n" "current_step n' = current_step n"
    "p2p_out n' = p2p_out n @ (if x_p2p_open X then [BroadcastConsensusMessage (NewQuorumCertificate (votes_qc h p vs))] else [])"
proof -
  consider "h \<in> processed_optimistic_batches n" | "h \<notin> processed_optimistic_batches n" "velocity_votes n h = None"
    | vs where "h \<notin> processed_optimistic_batches n" "velocity_votes n h = Some vs" "length vs < required_quorum (address_book E)"
    | vs where "h \<notin> processed_optimistic_batches n" "velocity_votes n h = Some vs" "\<not> length vs < required_quorum (address_book E)"
    by fastforce
  then show thesis
  proof cases
    case (4 vs)
    show thesis
    proof (cases "short_hash X h")
      case True
      with 4 show thesis
        by (intro panics) (simp add: process_votes_for_batch_def)
    next
      case short: False
      show thesis
      proof (cases "pending_proposals n h")
        case None
        with 4 short have "process_votes_for_batch X E h n = (n, [])"
          by (simp add: process_votes_for_batch_def)
        then show thesis
          by (rule nothing)
      next
        case (Some p)
        define n1 where "n1 = n\<lparr>processed_optimistic_batches := insert h (processed_optimistic_batches n),
          optimistically_confirmed_batches := optimistically_confirmed_batches n @ [payload_batch_of p]\<rparr>"
        define n2 where "n2 = (if pend_round p > view_number (highest_seen_qc n)
          then n1\<lparr>highest_seen_qc := votes_qc h p vs\<rparr> else n1)"
        define n3 where "n3 = p2p_send X (BroadcastConsensusMessage (NewQuorumCertificate (votes_qc h p vs))) n2"
        have "process_votes_for_batch X E h n = (prune_stale_data n3, [ReadConfirmed])"
          using 4 short Some
          by (simp add: process_votes_for_batch_def Let_def votes_qc_def payload_batch_of_def n1_def n2_def n3_def)
        moreover have "velocity_votes n3 = velocity_votes n" "pending_proposals n3 = pending_proposals n"
          "processed_optimistic_batches n3 = insert h (processed_optimistic_batches n)"
          "optimistically_confirmed_batches n3 = optimistically_confirmed_batches n @ [payload_batch_of p]"
          "highest_seen_qc n3 = (if pend_round p > view_number (highest_seen_qc n) then votes_qc h p vs else highest_seen_qc n)"
          "current_round n3 = current_round n" "current_step n3 = current_step n"
          "p2p_out n3 = p2p_out n @ (if x_p2p_open X then [BroadcastConsensusMessage (NewQuorumCertificate (votes_qc h p vs))] else [])"
          by (simp_all add: n3_def n2_def n1_def p2p_send_def)
        ultimately show thesis
          using 4 Some
          by (intro confirms [where vs = vs and p = p and n' = "prune_stale_data n3"])
             (simp_all add: prune_stale_data_def Let_def cong: if_cong)
      qed
    qed
  qed (rule nothing, simp add: process_votes_for_batch_def)+
qed

text \<open>Every other section leaves the processed and confirmed batches and the highest certificate alone.\<close>

fun is_process :: "task \<Rightarrow> bool" where
  "is_process (ProcessVotes _) = True"
| "is_process _ = False"

lemma task_frame:
  assumes "\<not> is_process t"
  shows "processed_optimistic_batches (fst (task_step X E t n)) = processed_optimistic_batches n"
    and "optimistically_confirmed_batches (fst (task_step X E t n)) = optimistically_confirmed_batches n"
  using assms
  by (cases t; simp add: Let_def prune_confirmed_proposals_def split: option.split sum.split)+

lemma task_pending:
  assumes "\<not> is_process t" "pending_proposals (fst (task_step X E t n)) h = Some p"
  shows "pending_proposals n h = Some p \<or> (\<exists>b. p = pending_of b \<and> h = calculate_hash (x_crypto X) (pb_header b))"
  using assms
  by ((cases t; simp add: Let_def prune_confirmed_proposals_def case_prod_beta
        split: option.splits sum.splits if_splits); blast)

lemma confirmed_ok_panic [simp]: "confirmed_ok X (panic e n) \<longleftrightarrow> confirmed_ok X n"
  by (simp add: confirmed_ok_def)

lemma confirmed_keeps:
  assumes "confirmed_ok X n" "task_step X E t n = (n', new)"
  shows "confirmed_ok X n'"
proof (cases "is_process t")
  case False
  have "\<forall>h p. pending_proposals n' h = Some p \<longrightarrow> calculate_hash (x_crypto X) (pend_header p) = h"
    using task_pending [OF False, of X E n] assms by (fastforce simp: confirmed_ok_def pending_of_def)
  with task_frame [OF False, of X E n] assms show ?thesis
    by (simp add: confirmed_ok_def)
next
  case True
  then obtain h where ProcessVotes: "t = ProcessVotes h"
    by (cases t) auto
  from process_votes_cases [of X E h n] show ?thesis
  proof cases
    case (confirms vs p m)
    let ?bs = "optimistically_confirmed_batches n @ [payload_batch_of p]"
    have n': "n' = m"
      using confirms(1) assms(2) ProcessVotes by simp
    have hash: "batch_hash X (payload_batch_of p) = h"
      using assms(1) confirms(4) by (simp add: confirmed_ok_def batch_hash_def payload_batch_of_def)
    with assms(1) confirms(2) have bs: "distinct (map (batch_hash X) ?bs)"
      "batch_hash X ` set ?bs \<subseteq> insert h (processed_optimistic_batches n)"
      by (auto simp: confirmed_ok_def)
    let ?k = "length ?bs - MAX_CONFIRMED_BATCHES"
    have "distinct (map (batch_hash X) (drop ?k ?bs))"
      using bs(1) by (metis distinct_drop drop_map)
    moreover have "batch_hash X ` set (drop ?k ?bs) \<subseteq> insert h (processed_optimistic_batches n)"
      using bs(2) set_drop_subset [of ?k ?bs] by blast
    moreover have "length (drop ?k ?bs) \<le> MAX_CONFIRMED_BATCHES"
      by simp
    ultimately show ?thesis
      using assms(1) confirms(6-8) unfolding n' confirmed_ok_def Let_def by simp
  qed (use assms ProcessVotes in auto)
qed

interpretation confirmed: task_invariant X E "confirmed_ok X" "\<lambda>_. True" for X E
  by unfold_locales (auto dest: confirmed_keeps)

section \<open>The highest certificate\<close>

text \<open>The view of the highest certificate never falls.\<close>

lemma view_mono:
  "view_number (highest_seen_qc n) \<le> view_number (highest_seen_qc (fst (task_step X E t n)))"
proof (cases "is_process t")
  case False
  then show ?thesis
    by (cases t; simp add: Let_def prune_confirmed_proposals_def case_prod_beta order.strict_implies_order
        split: option.split sum.split)
next
  case True
  then obtain h where t: "t = ProcessVotes h"
    by (cases t) auto
  from process_votes_cases [of X E h n] show ?thesis
  proof cases
    case (confirms vs p m)
    then show ?thesis
      by (simp add: t votes_qc_def order.strict_implies_order)
  qed (simp_all add: t)
qed

text \<open>Nothing sent is unsent, and no batch is forgotten once it is processed.\<close>

lemma out_mono: "set (p2p_out n) \<subseteq> set (p2p_out (fst (task_step X E t n)))"
proof (cases "is_process t")
  case True
  then obtain h where t: "t = ProcessVotes h"
    by (cases t) auto
  from process_votes_cases [of X E h n] show ?thesis
    by cases (simp_all add: t)
next
  case False
  then show ?thesis
    by (cases t; simp add: Let_def p2p_send_def prune_confirmed_proposals_def case_prod_beta subset_insertI
        split: option.split sum.split)
qed

lemma processed_mono: "processed_optimistic_batches n \<subseteq> processed_optimistic_batches (fst (task_step X E t n))"
proof (cases "is_process t")
  case True
  then obtain h where t: "t = ProcessVotes h"
    by (cases t) auto
  from process_votes_cases [of X E h n] show ?thesis
    by cases (auto simp: t)
qed (simp add: task_frame)

interpretation sent: task_invariant X E "\<lambda>n. cmd \<in> set (p2p_out n)" "\<lambda>_. True" for X E cmd
proof
  fix n t n' new
  assume "cmd \<in> set (p2p_out n)" "task_step X E t n = (n', new)"
  with out_mono [of n X E t] show "cmd \<in> set (p2p_out n') \<and> (\<forall>t' \<in> set new. True)"
    by auto
qed simp_all

interpretation processed: task_invariant X E "\<lambda>n. h \<in> processed_optimistic_batches n" "\<lambda>_. True" for X E h
proof
  fix n t n' new
  assume "h \<in> processed_optimistic_batches n" "task_step X E t n = (n', new)"
  with processed_mono [of n X E t] show "h \<in> processed_optimistic_batches n' \<and> (\<forall>t' \<in> set new. True)"
    by auto
qed simp_all

lemma run_view_mono:
  assumes "consensus_run X E c c'"
  shows "view_number (highest_seen_qc (fst c)) \<le> view_number (highest_seen_qc (fst c'))"
  using assms
proof (induction rule: consensus_run.induct)
  case (step c c' c'')
  from step.hyps(2) have "view_number (highest_seen_qc (fst c')) \<le> view_number (highest_seen_qc (fst c''))"
  proof (cases rule: consensus_step.cases)
    case (run t n n' new ts ts')
    then show ?thesis
      using view_mono [of n X E t] by simp
  qed simp_all
  with step.IH show ?case
    by simp
qed simp

section \<open>Voters\<close>

text \<open>
  Votes received from others are stored once for each voter; the votes the node casts itself are
  stored without that check.
\<close>

definition others :: "ConsensusEngine \<Rightarrow> Address list \<Rightarrow> Address list" where
  "others E as = filter (\<lambda>a. a \<noteq> my_address E) as"

definition voters_ok :: "ConsensusEngine \<Rightarrow> 'c CoreState \<Rightarrow> bool" where
  "voters_ok E n \<longleftrightarrow> (\<forall>h vs. velocity_votes n h = Some vs \<longrightarrow> distinct (others E (map voter_address vs)))"

lemma push_own: "voters_ok E n \<Longrightarrow> voter_address v = my_address E \<Longrightarrow> voters_ok E (push_vote h v n)"
  by (auto simp: voters_ok_def others_def push_vote_def split: option.splits)

lemma push_new:
  assumes "voters_ok E n" "\<forall>vs. velocity_votes n h = Some vs \<longrightarrow> voter_address v \<notin> voter_address ` set vs"
  shows "voters_ok E (push_vote h v n)"
  using assms by (auto simp: voters_ok_def others_def push_vote_def split: option.splits)

lemma own_voter:
  "sign_vote CR kp (unsigned_vote E h r) = Inr v \<Longrightarrow> voter_address v = my_address E"
  by (auto simp: sign_vote_def unsigned_vote_def panic_simps)

lemma voters_fewer:
  "voters_ok E n \<Longrightarrow> velocity_votes n' \<subseteq>\<^sub>m velocity_votes n \<Longrightarrow> voters_ok E n'"
  unfolding voters_ok_def map_le_def by (metis domI)

lemma voters_keeps:
  assumes "voters_ok E n"
  shows "voters_ok E (fst (task_step X E t n))"
proof (cases t)
  case (CastVote h r)
  with assms show ?thesis
    by (auto intro: push_own own_voter voters_fewer split: sum.split)
next
  case (SelfVote b)
  with assms show ?thesis
    by (auto simp: Let_def intro: push_own own_voter voters_fewer split: sum.split)
next
  case (PushVote v)
  with assms show ?thesis
    by (auto intro!: push_new split: option.split)
next
  case (ProcessVotes h)
  from process_votes_cases [of X E h n] show ?thesis
  proof cases
    case (confirms vs p m)
    with assms ProcessVotes show ?thesis
      by (auto simp: map_le_def dom_def intro: voters_fewer split: if_splits)
  qed (use assms ProcessVotes in \<open>auto intro: voters_fewer\<close>)
qed (use assms in \<open>auto simp: Let_def prune_confirmed_proposals_def case_prod_beta intro: voters_fewer split: option.split sum.split\<close>)

section \<open>Authenticity\<close>

definition vote_ok :: "'c externals \<Rightarrow> ConsensusEngine \<Rightarrow> bytes \<Rightarrow> VelocityVote \<Rightarrow> bool" where
  "vote_ok X E h v \<longleftrightarrow>
     verify_vote_signature (x_crypto X) (address_book E) (voter_address v) (round_id v) h (v_signature v)"

text \<open>
  A certificate backed by a quorum of signatures of validators for its batch, at most one of each
  validator but the node itself; the round each of them signed is left open.
\<close>

definition qc_backed :: "'c externals \<Rightarrow> ConsensusEngine \<Rightarrow> QuorumCertificate \<Rightarrow> bool" where
  "qc_backed X E qc \<longleftrightarrow> required_quorum (address_book E) \<le> length (qc_signatures qc) \<and>
     distinct (others E (map fst (qc_signatures qc))) \<and>
     (\<forall>(a, sig) \<in> set (qc_signatures qc).
        \<exists>r. verify_vote_signature (x_crypto X) (address_book E) a r (qc_batch_hash qc) sig)"

definition certified :: "'c externals \<Rightarrow> ConsensusEngine \<Rightarrow> 'c CoreState \<Rightarrow> PayloadBatch \<Rightarrow> bool" where
  "certified X E n b \<longleftrightarrow>
     verify_batch_signature (x_crypto X) (address_book E) (pb_header b) \<and>
     (\<exists>qc. qc_backed X E qc \<and> qc_batch_hash qc = batch_hash X b \<and> view_number qc = pb_round b \<and>
        BroadcastConsensusMessage (NewQuorumCertificate qc) \<in> set (p2p_out n))"

definition auth_ok :: "'c externals \<Rightarrow> ConsensusEngine \<Rightarrow> 'c CoreState \<Rightarrow> bool" where
  "auth_ok X E n \<longleftrightarrow> confirmed_ok X n \<and> voters_ok E n \<and>
     (\<forall>h vs. velocity_votes n h = Some vs \<longrightarrow> (\<forall>v \<in> set vs. vote_ok X E h v)) \<and>
     (\<forall>h p. pending_proposals n h = Some p \<longrightarrow>
        verify_batch_signature (x_crypto X) (address_book E) (pend_header p)) \<and>
     (\<forall>b \<in> set (optimistically_confirmed_batches n). certified X E n b)"

lemma certified_mono: "certified X E n b \<Longrightarrow> set (p2p_out n) \<subseteq> set (p2p_out n') \<Longrightarrow> certified X E n' b"
  unfolding certified_def by blast

fun auth_task :: "'c externals \<Rightarrow> ConsensusEngine \<Rightarrow> task \<Rightarrow> bool" where
  "auth_task X E (InsertProposal b) \<longleftrightarrow> verify_batch_signature (x_crypto X) (address_book E) (pb_header b)"
| "auth_task X E (ProposeInsert b) \<longleftrightarrow> verify_batch_signature (x_crypto X) (address_book E) (pb_header b)"
| "auth_task X E (PushVote v) \<longleftrightarrow> vote_ok X E (v_batch_hash v) v"
| "auth_task X E _ \<longleftrightarrow> True"

text \<open>
  A node that is one of the validators: its keys are a pair of the scheme and the address
  book lists their public halves under its address.
\<close>

locale validator_node = signatures "x_crypto X" keys vrf_keys
  for X :: "'c externals" and keys :: "(bytes \<times> bytes) set" and vrf_keys :: "(bytes \<times> bytes) set" +
  fixes E :: ConsensusEngine and me :: PeerIdentityInfo and vpk :: bytes
  assumes p2p_open: "x_p2p_open X"
    and own_keys: "(public_key (signing_keys (validator_keys E)), private_key (signing_keys (validator_keys E))) \<in> keys"
    and own_vrf: "(vpk, vrf_secret (validator_keys E)) \<in> vrf_keys"
    and listed: "map_of (address_book E) (my_address E) = Some me"
      "pi_public_key me = Some (public_key (signing_keys (validator_keys E)))"
      "pi_vrf_public_key me = Some vpk"
begin

lemma own_book_key: "book_key (address_book E) (my_address E) = Some (public_key (signing_keys (validator_keys E)))"
  using listed key_sizes [OF own_keys] by (simp add: book_key_def)

text \<open>Votes the node casts and batches it proposes pass the checks of every node with the same address book.\<close>

lemma own_vote:
  obtains v where "sign_vote (x_crypto X) (signing_keys (validator_keys E)) (unsigned_vote E h r) = Inr v"
    "vote_ok X E h v" "round_id v = r" "v_batch_hash v = h" "voter_address v = my_address E"
proof -
  let ?kp = "signing_keys (validator_keys E)"
  obtain v where v: "sign_vote (x_crypto X) ?kp (unsigned_vote E h r) = Inr v"
    "v = (unsigned_vote E h r)\<lparr>v_signature := v_signature v\<rparr>"
    "verify_sig (x_crypto X) (public_key ?kp) (vote_bytes (unsigned_vote E h r) (public_key ?kp)) (v_signature v)"
    using sign_vote_verifies [OF own_keys] by blast
  have f: "round_id v = r" "v_batch_hash v = h" "voter_address v = my_address E"
    by (subst v(2), simp add: unsigned_vote_def)+
  moreover have "vote_ok X E h v"
    using v(3) by (simp add: vote_ok_def verify_vote_signature_def f own_book_key vote_bytes_def unsigned_vote_def)
  ultimately show thesis
    using that v(1) by blast
qed

lemma own_signs: "keypair_sign (x_crypto X) (signing_keys (validator_keys E)) m =
    Inr (dil_sign (x_crypto X) (private_key (signing_keys (validator_keys E))) m)"
  by (rule keypair_signs(1) [OF own_keys])

lemma own_batch:
  assumes "propose_build X E r qc ps ts n = Inr b"
  shows "verify_batch_signature (x_crypto X) (address_book E) (pb_header b)"
proof -
  let ?kp = "signing_keys (validator_keys E)"
  obtain idx h where h: "h = proposal_header X E idx (snd (parent_link X n)) ts ps"
    and b: "pb_header b = h\<lparr>bh_signature := dil_sign (x_crypto X) (private_key ?kp) (canonical_bytes_for_signing h)\<rparr>"
    using assms by (auto simp: propose_build_def Let_def panic_simps own_signs)
  have f: "authority h = my_address E"
    "vrf_sign (x_crypto X) (vrf_secret (validator_keys E)) vrf_context (prev_hash h) = (vrf_output h, vrf_proof h)"
    by (simp_all add: h proposal_header_def split: prod.split)
  have canon: "canonical_bytes_for_signing (h\<lparr>bh_signature := s\<rparr>) = canonical_bytes_for_signing h" for s
    by (simp add: canonical_bytes_for_signing_def)
  from vrf_verifies [OF own_vrf f(2)] vrf_pk [OF own_vrf] keypair_signs(2) [OF own_keys] listed own_book_key
  show ?thesis
    by (simp add: verify_batch_signature_def b f(1) canon)
qed

lemma auth_new_tasks:
  assumes "auth_task X E t" "t' \<in> set (snd (task_step X E t n))"
  shows "auth_task X E t'"
proof (cases "is_process t")
  case True
  then obtain h where t: "t = ProcessVotes h"
    by (cases t) auto
  from process_votes_cases [of X E h n] assms(2) show ?thesis
    by cases (auto simp: t)
next
  case False
  with assms show ?thesis
    by (cases t; auto simp: Let_def dispatch_def vote_ok_def own_batch
        split: if_splits option.splits sum.splits ConsensusMessage.splits)
qed

lemma push_vote_votes:
  assumes "velocity_votes (push_vote h v n) k = Some vs" "w \<in> set vs"
  shows "(\<exists>vs0. velocity_votes n k = Some vs0 \<and> w \<in> set vs0) \<or> k = h \<and> w = v"
  using assms by (auto simp: push_vote_def split: if_splits option.splits)

lemma auth_votes:
  assumes "auth_task X E t" "\<not> is_process t"
    and "velocity_votes (fst (task_step X E t n)) h = Some vs" "v \<in> set vs"
  shows "(\<exists>vs0. velocity_votes n h = Some vs0 \<and> v \<in> set vs0) \<or> vote_ok X E h v"
proof (cases t)
  case (CastVote k r)
  obtain w where "sign_vote (x_crypto X) (signing_keys (validator_keys E)) (unsigned_vote E k r) = Inr w" "vote_ok X E k w"
    by (rule own_vote)
  with assms(3,4) CastVote show ?thesis
    using push_vote_votes [of k w n h vs v] by (auto split: if_splits)
next
  case (SelfVote b)
  let ?k = "calculate_hash (x_crypto X) (pb_header b)"
  obtain w where "sign_vote (x_crypto X) (signing_keys (validator_keys E)) (unsigned_vote E ?k (pb_round b)) = Inr w" "vote_ok X E ?k w"
    by (rule own_vote)
  with assms(3,4) SelfVote show ?thesis
    using push_vote_votes [of ?k w n h vs v] by (auto simp: Let_def)
next
  case (PushVote w)
  with assms(1,3,4) show ?thesis
    using push_vote_votes [of "v_batch_hash w" w n h vs v] by (auto split: option.splits if_splits)
qed (use assms(2-4) in \<open>simp_all add: Let_def prune_confirmed_proposals_def case_prod_beta split: option.splits sum.splits if_splits\<close>)

lemma auth_pending:
  assumes "auth_task X E t" "\<not> is_process t" "pending_proposals (fst (task_step X E t n)) h = Some p"
  shows "pending_proposals n h = Some p \<or> verify_batch_signature (x_crypto X) (address_book E) (pend_header p)"
  using assms
  by (cases t; auto simp: Let_def prune_confirmed_proposals_def case_prod_beta pending_of_def
      split: option.splits sum.splits if_splits)

lemma auth_keeps_other:
  assumes auth: "auth_ok X E n" "auth_task X E t" "\<not> is_process t"
  shows "auth_ok X E (fst (task_step X E t n))"
proof -
  let ?n = "fst (task_step X E t n)"
  have "confirmed_ok X ?n"
    using auth(1) confirmed_keeps [of X n E t ?n "snd (task_step X E t n)"] by (simp add: auth_ok_def)
  moreover have "\<forall>v \<in> set vs. vote_ok X E h v" if "velocity_votes ?n h = Some vs" for h vs
    using auth_votes [OF auth(2,3) that] auth(1) unfolding auth_ok_def by blast
  moreover have "verify_batch_signature (x_crypto X) (address_book E) (pend_header p)"
    if "pending_proposals ?n h = Some p" for h p
    using auth_pending [OF auth(2,3) that] auth(1) unfolding auth_ok_def by blast
  moreover have "certified X E ?n b" if "b \<in> set (optimistically_confirmed_batches ?n)" for b
    using that auth(1) out_mono [of n X E t] certified_mono [of X E n b ?n]
    unfolding task_frame(2) [OF auth(3)] auth_ok_def by blast
  moreover have "voters_ok E ?n"
    using auth(1) by (intro voters_keeps) (simp add: auth_ok_def)
  ultimately show ?thesis
    unfolding auth_ok_def by blast
qed

lemma auth_keeps_process:
  assumes auth: "auth_ok X E n"
  shows "auth_ok X E (fst (process_votes_for_batch X E h n))"
  using process_votes_cases [of X E h n]
proof cases
  case nothing
  with auth show ?thesis
    by simp
next
  case panics
  have "certified X E (panic e n) b = certified X E n b" "voters_ok E (panic e n) = voters_ok E n" for e b
    by (simp_all add: certified_def voters_ok_def)
  with auth panics show ?thesis
    by (simp add: auth_ok_def)
next
  case (confirms vs p m)
  let ?qc = "votes_qc h p vs"
  have out: "set (p2p_out n) \<subseteq> set (p2p_out m)" "BroadcastConsensusMessage (NewQuorumCertificate ?qc) \<in> set (p2p_out m)"
    using confirms(13) p2p_open by auto
  have "voters_ok E m"
    using voters_keeps [of E n X "ProcessVotes h"] confirms(1) auth by (simp add: auth_ok_def)
  moreover have "confirmed_ok X m"
    using confirmed_keeps [of X n E "ProcessVotes h" m "[ReadConfirmed]"] confirms(1) auth by (simp add: auth_ok_def)
  moreover have "\<forall>v \<in> set ws. vote_ok X E k v" if "velocity_votes m k = Some ws" for k ws
    using that confirms(9) auth by (auto simp: auth_ok_def split: if_splits)
  moreover have "verify_batch_signature (x_crypto X) (address_book E) (pend_header q)"
    if "pending_proposals m k = Some q" for k q
    using that confirms(8) auth by (simp add: auth_ok_def)
  moreover have "certified X E m b" if "b \<in> set (optimistically_confirmed_batches m)" for b
  proof -
    have "b \<in> set (optimistically_confirmed_batches n @ [payload_batch_of p])"
      using that confirms(7) in_set_dropD unfolding Let_def by metis
    then consider "b \<in> set (optimistically_confirmed_batches n)" | "b = payload_batch_of p"
      by auto
    then show ?thesis
    proof cases
      case 1
      with auth out(1) show ?thesis
        unfolding auth_ok_def by (blast intro: certified_mono)
    next
      case 2
      have "\<forall>v \<in> set vs. vote_ok X E h v" "verify_batch_signature (x_crypto X) (address_book E) (pend_header p)"
        "batch_hash X (payload_batch_of p) = h"
        using auth confirms(3,4) by (auto simp: auth_ok_def confirmed_ok_def batch_hash_def payload_batch_of_def)
      moreover have "distinct (others E (map voter_address vs))"
        using auth confirms(3) by (simp add: auth_ok_def voters_ok_def)
      with calculation(1) have "qc_backed X E ?qc"
        using confirms(5) by (auto simp: qc_backed_def votes_qc_def vote_ok_def comp_def)
      ultimately show ?thesis
        using out(2) 2 by (auto simp: certified_def payload_batch_of_def votes_qc_def intro!: exI [of _ ?qc])
    qed
  qed
  ultimately have "auth_ok X E m"
    unfolding auth_ok_def by blast
  with confirms(1) show ?thesis
    by simp
qed

lemma auth_keeps:
  assumes "auth_ok X E n" "auth_task X E t"
  shows "auth_ok X E (fst (task_step X E t n))"
proof (cases "is_process t")
  case True
  then obtain h where "t = ProcessVotes h"
    by (cases t) auto
  with assms(1) auth_keeps_process show ?thesis
    by simp
qed (rule auth_keeps_other [OF assms])

end

sublocale validator_node \<subseteq> auth: task_invariant X E "auth_ok X E" "auth_task X E"
proof
  fix n t n' new
  assume "auth_ok X E n" "auth_task X E t" "task_step X E t n = (n', new)"
  then show "auth_ok X E n' \<and> (\<forall>t' \<in> set new. auth_task X E t')"
    using auth_keeps [of n t] auth_new_tasks [of t _ n] by simp
qed simp_all

context validator_node
begin

lemmas auth_run_keeps = auth.run_keeps

end

lemma initial_ok:
  "confirmed_ok X (consensus_state_new L now qc pool)" "auth_ok X E (consensus_state_new L now qc pool)"
  by (simp_all add: confirmed_ok_def auth_ok_def voters_ok_def consensus_state_new_def)

end
