(* ===== verification/Consensus_Claims.thy ===== *)
theory Consensus_Claims
  imports Consensus_Safety
begin

text \<open>
  What the consensus engine guarantees, and where it does not do what it means to: quorum
  intersection, conflicting batches, the invariants of all interleavings, what each handler does,
  the election, the proposer and the round driver.  A small concrete instance of the
  cryptographic primitives and a network of four validators serve the examples.
\<close>

section \<open>Running handlers to their end\<close>

lemma exec_process:
  "exec_tasks X E [ProcessVotes h] n =
     (case process_votes_for_batch X E h n of
        (m, new) \<Rightarrow> if new = [] then m else prune_confirmed_proposals (processed_optimistic_batches m) m)"
  by (rule process_votes_cases [of X E h n]) simp_all

lemma process_votes_pending: "pending_proposals (fst (process_votes_for_batch X E h n)) = pending_proposals n"
  by (rule process_votes_cases [of X E h n]) simp_all

text \<open>Messages handled one after the other are one of the interleavings.\<close>

definition receive_all :: "(ConsensusMessage \<times> PeerId \<times> nat) list \<Rightarrow> task list" where
  "receive_all ms = map (\<lambda>(m, p, t). HandleMessage m p t) ms"

lemma messages_run: "consensus_run X E (n, []) (exec_tasks X E (receive_all ms) n, [])"
proof -
  have "consensus_run X E (n, []) (n, receive_all ms)"
  proof (induction ms rule: rev_induct)
    case (snoc mpt ms)
    obtain m p t where "mpt = (m, p, t)"
      by (cases mpt)
    with consensus_run.step [OF snoc consensus_step.receive [of X E n "receive_all ms" m p t]] show ?case
      by (simp add: receive_all_def)
  qed (simp add: receive_all_def consensus_run.start)
  then show ?thesis
    by (rule consensus_run_trans [OF _ exec_tasks_run])
qed

section \<open>A concrete network\<close>

text \<open>
  Hashes and signatures pad or cut their argument to the right size; a signature is valid
  when it is the one of the message.  Four validators share an address book.
\<close>

definition pad :: "nat \<Rightarrow> bytes \<Rightarrow> bytes" where
  "pad k bs = take k (bs @ replicate k 0)"

lemma length_pad [simp]: "length (pad k bs) = k"
  by (simp add: pad_def)

definition sample_crypto :: crypto_ops where
  "sample_crypto =
     \<lparr>sha256 = pad 32, keccak256 = pad 32,
      dil_pk_ok = (\<lambda>pk. length pk = PUBLIC_KEY_SIZE), dil_sk_ok = (\<lambda>sk. length sk = PRIVATE_KEY_SIZE),
      dil_sig_ok = (\<lambda>sig. length sig = SIGNATURE_SIZE),
      dil_sign = (\<lambda>sk m. pad SIGNATURE_SIZE m), dil_verify = (\<lambda>pk m sig. sig = pad SIGNATURE_SIZE m),
      vrf_pk_ok = (\<lambda>vpk. length vpk = 32), vrf_out_ok = (\<lambda>out. length out = 32),
      vrf_proof_ok = (\<lambda>p. length p = 64),
      vrf_sign = (\<lambda>sk ctx m. (pad 32 m, pad 64 ctx)),
      vrf_verify = (\<lambda>vpk ctx m out p. out = pad 32 m \<and> p = pad 64 ctx)\<rparr>"

definition sample_keys :: "(bytes \<times> bytes) set" where
  "sample_keys = {(pk, sk). length pk = PUBLIC_KEY_SIZE \<and> length sk = PRIVATE_KEY_SIZE}"

definition sample_vrf_keys :: "(bytes \<times> bytes) set" where
  "sample_vrf_keys = {(vpk, vsk). length vpk = 32}"

interpretation sample: signatures sample_crypto sample_keys sample_vrf_keys
  by unfold_locales (auto simp: sample_crypto_def sample_keys_def sample_vrf_keys_def)

definition sample_pk :: "u8 \<Rightarrow> bytes" where
  "sample_pk k = replicate PUBLIC_KEY_SIZE k"

definition sample_address :: "u8 \<Rightarrow> Address" where
  "sample_address k = Address (k # replicate 19 0)"

lemma sample_address_eq [simp]: "sample_address k = sample_address j \<longleftrightarrow> k = j"
  by (simp add: sample_address_def)

lemma length_sample_pk [simp]: "length (sample_pk k) = PUBLIC_KEY_SIZE"
  by (simp add: sample_pk_def)

definition sample_identity :: "u8 \<Rightarrow> PeerIdentityInfo" where
  "sample_identity k = \<lparr>pi_peer_id = ''peer'', pi_multiaddr = ''/ip4/127.0.0.1'', pi_public_key = Some (sample_pk k),
     pi_vrf_public_key = Some (replicate 32 k), pi_version = 0\<rparr>"

definition sample_book :: AddressBook where
  "sample_book = map (\<lambda>k. (sample_address k, sample_identity k)) [1, 2, 3, 4]"

definition sample_engine :: "u8 \<Rightarrow> ConsensusEngine" where
  "sample_engine k = \<lparr>my_address = sample_address k,
     validator_keys = \<lparr>signing_keys = \<lparr>public_key = sample_pk k, private_key = replicate PRIVATE_KEY_SIZE k\<rparr>, vrf_secret = [k]\<rparr>,
     address_book = sample_book, chain_id = ''test'',
     genesis_params = \<lparr>sub_committee_size = 2, proposer_timeout_ms = 1000\<rparr>\<rparr>"

fun sample_borsh :: "ConsensusMessage \<Rightarrow> bytes option" where
  "sample_borsh (IntentBatchProposal b) = Some (1 # canonical_bytes_for_signing (pb_header b))"
| "sample_borsh (VelocityVoteMsg v) = Some (2 # addr_bytes (voter_address v))"
| "sample_borsh (NewQuorumCertificate qc) = Some (3 # qc_batch_hash qc)"

definition sample_externals :: "build_profile \<Rightarrow> bytes list externals" where
  "sample_externals prof = \<lparr>x_crypto = sample_crypto, x_borsh = sample_borsh, x_shuffle = (\<lambda>_. rev),
     x_lru = \<lparr>lru_new = [], lru_contains = (\<lambda>c h. h \<in> set c), lru_put = (#)\<rparr>,
     x_log_on = True, x_p2p_open = True, x_profile = prof\<rparr>"

lemma sample_externals_simps [simp]:
  "x_crypto (sample_externals prof) = sample_crypto" "x_p2p_open (sample_externals prof)"
  "x_profile (sample_externals prof) = prof" "x_borsh (sample_externals prof) = sample_borsh"
  "x_shuffle (sample_externals prof) = (\<lambda>_. rev)"
  "x_lru (sample_externals prof) = \<lparr>lru_new = [], lru_contains = (\<lambda>c h. h \<in> set c), lru_put = (#)\<rparr>"
  by (simp_all add: sample_externals_def)

lemma sample_engine_simps [simp]:
  "my_address (sample_engine k) = sample_address k" "address_book (sample_engine k) = sample_book"
  "public_key (signing_keys (validator_keys (sample_engine k))) = sample_pk k"
  "genesis_params (sample_engine k) = \<lparr>sub_committee_size = 2, proposer_timeout_ms = 1000\<rparr>"
  by (simp_all add: sample_engine_def)

lemma sample_node:
  assumes "k \<in> {1, 2, 3, 4}"
  shows "validator_node (sample_externals prof) sample_keys sample_vrf_keys (sample_engine k) (sample_identity k) (replicate 32 k)"
  using assms sample.signatures_axioms
  by (auto simp: validator_node_def validator_node_axioms_def sample_engine_def sample_keys_def sample_vrf_keys_def
      sample_book_def sample_identity_def)

interpretation sn: validator_node "sample_externals Release" sample_keys sample_vrf_keys "sample_engine 1" "sample_identity 1" "replicate 32 1"
  by (rule sample_node) simp

definition sample_vote :: "u8 \<Rightarrow> u64 \<Rightarrow> bytes \<Rightarrow> VelocityVote" where
  "sample_vote k r h =
     (let v = \<lparr>round_id = r, v_batch_hash = h, voter_address = sample_address k, v_signature = []\<rparr>
      in v\<lparr>v_signature := pad SIGNATURE_SIZE (vote_bytes v (sample_pk k))\<rparr>)"

lemma sample_vote_simps [simp]:
  "round_id (sample_vote k r h) = r" "v_batch_hash (sample_vote k r h) = h" "voter_address (sample_vote k r h) = sample_address k"
  by (simp_all add: sample_vote_def Let_def)

lemma sample_vote_ok [simp]:
  assumes "k \<in> {1, 2, 3, 4}"
  shows "verify_vote_signature sample_crypto sample_book (sample_address k) r h (v_signature (sample_vote k r h))"
  using assms
  by (auto simp: verify_vote_signature_def book_key_def sample_book_def sample_identity_def sample_vote_def
      verify_sig_def sample_crypto_def)

definition sample_qc :: "u64 \<Rightarrow> bytes \<Rightarrow> u8 list \<Rightarrow> QuorumCertificate" where
  "sample_qc r h ks = \<lparr>qc_batch_hash = h, view_number = r,
     qc_signatures = map (\<lambda>k. (sample_address k, v_signature (sample_vote k r h))) ks\<rparr>"

lemma sample_quorum [simp]: "required_quorum sample_book = 3" "fst ` set sample_book = sample_address ` {1, 2, 3, 4}"
  by (simp_all add: required_quorum_def sample_book_def)

lemma sample_qc_valid:
  assumes "set ks \<subseteq> {1, 2, 3, 4}" "distinct ks" "3 \<le> length ks"
  shows "qc_valid sample_crypto sample_book (sample_qc r h ks)"
proof -
  let ?sigs = "map (\<lambda>k. (sample_address k, v_signature (sample_vote k r h))) ks"
  have "verify_vote_signature sample_crypto sample_book (sample_address k) r h (v_signature (sample_vote k r h))"
    if "k \<in> set ks" for k
    using assms(1) that by (intro sample_vote_ok) blast
  moreover have "distinct (map fst ?sigs)"
    using assms(2) by (simp add: comp_def distinct_map inj_on_def)
  ultimately have "count_valid sample_crypto sample_book r h {} ?sigs = length ?sigs"
    by (intro count_valid_all) auto
  with assms(3) show ?thesis
    by (simp add: qc_valid_def sample_qc_def)
qed

section \<open>Certificates\<close>

text \<open>
  C6: Any two certificates that pass the validity check of \<^verbatim>\<open>handle_new_quorum_certificate\<close>
  share more than a third of the validators: their sets of voters whose signatures verify
  overlap in more than a third of the address book.
\<close>

theorem qc_intersection:
  assumes "qc_valid CR ab qc" "qc_valid CR ab qc'"
  shows "card (fst ` set ab) < 3 * card (qc_voters CR ab qc \<inter> qc_voters CR ab qc')"
  by (intro vq.overlap qc_voters_book qc_valid_voters assms)

theorem qc_intersection_witness:
  "4 < 3 * card (qc_voters sample_crypto sample_book (sample_qc 1 [1] [1, 2, 3]) \<inter>
     qc_voters sample_crypto sample_book (sample_qc 1 [2] [2, 3, 4]))"
  using qc_intersection [OF sample_qc_valid [of "[1, 2, 3]" 1 "[1]"] sample_qc_valid [of "[2, 3, 4]" 1 "[2]"]]
  by (simp add: card_image inj_on_def)

section \<open>All interleavings\<close>

text \<open>The batches for which certificates were broadcast, in order.\<close>

definition certificates_sent :: "'c CoreState \<Rightarrow> bytes list" where
  "certificates_sent n = concat (map (\<lambda>c. case c of
     BroadcastConsensusMessage (NewQuorumCertificate qc) \<Rightarrow> [qc_batch_hash qc] | _ \<Rightarrow> []) (p2p_out n))"

lemma certificates_sent_simps [simp]:
  "certificates_sent (panic e n) = certificates_sent n"
  "certificates_sent (push_vote h v n) = certificates_sent n"
  "certificates_sent (p2p_send X c n) = certificates_sent n @ (if x_p2p_open X then
     (case c of BroadcastConsensusMessage (NewQuorumCertificate qc) \<Rightarrow> [qc_batch_hash qc] | _ \<Rightarrow> []) else [])"
  by (simp_all add: certificates_sent_def p2p_send_def)

lemma certificates_frame:
  assumes "\<not> is_process t"
  shows "certificates_sent (fst (task_step X E t n)) = certificates_sent n"
  using assms
  by (cases t; simp add: Let_def case_prod_beta split: option.split sum.split)
    (simp_all add: certificates_sent_def prune_confirmed_proposals_def)

interpretation once: task_invariant X E
  "\<lambda>n. distinct (certificates_sent n) \<and> set (certificates_sent n) \<subseteq> processed_optimistic_batches n" "\<lambda>_. True" for X E
proof
  fix n t n' new
  assume inv: "distinct (certificates_sent n) \<and> set (certificates_sent n) \<subseteq> processed_optimistic_batches n"
    and step: "task_step X E t n = (n', new)"
  show "(distinct (certificates_sent n') \<and> set (certificates_sent n') \<subseteq> processed_optimistic_batches n') \<and> (\<forall>t' \<in> set new. True)"
  proof (cases "is_process t")
    case False
    have "fst (task_step X E t n) = n'"
      by (simp add: step)
    with inv certificates_frame [OF False, of X E n] task_frame(1) [OF False, of X E n] show ?thesis
      by simp
  next
    case True
    then obtain h where "t = ProcessVotes h"
      by (cases t) auto
    with step have step: "process_votes_for_batch X E h n = (n', new)"
      by simp
    from process_votes_cases [of X E h n] show ?thesis
    proof cases
      case (confirms vs p m)
      then have "certificates_sent m = certificates_sent n @ (if x_p2p_open X then [h] else [])"
        by (simp add: certificates_sent_def votes_qc_def)
      with confirms(1,2,6) inv step show ?thesis
        by auto
    qed (use inv step in \<open>simp_all\<close>)
  qed
qed simp_all

text \<open>
  C10: In every interleaving of messages, driver ticks and aborted tasks, from the initial
  state, a batch is confirmed at most once: no batch occurs twice in the history of confirmed
  batches, at most one certificate is broadcast for each batch, every confirmed batch is
  marked as processed, and the history holds at most \<open>MAX_CONFIRMED_BATCHES\<close> batches.
  (Tasks are aborted between their critical sections.)
\<close>

theorem confirmed_once:
  assumes "consensus_run X E (consensus_state_new L now qc pool, ts) (n, ts')"
  shows "distinct (map (batch_hash X) (optimistically_confirmed_batches n)) \<and>
    distinct (certificates_sent n) \<and>
    batch_hash X ` set (optimistically_confirmed_batches n) \<subseteq> processed_optimistic_batches n \<and>
    length (optimistically_confirmed_batches n) \<le> MAX_CONFIRMED_BATCHES"
proof -
  have "certificates_sent (consensus_state_new L now qc pool) = []"
    by (simp add: certificates_sent_def consensus_state_new_def)
  with once.run_keeps [OF assms] have "distinct (certificates_sent n)"
    by simp
  moreover have "confirmed_ok X n"
    using confirmed.run_keeps [OF assms] initial_ok(1) [of X L now qc pool] by simp
  ultimately show ?thesis
    unfolding confirmed_ok_def by blast
qed

text \<open>
  In every interleaving the view of the highest certificate a node has seen never falls.
\<close>

lemma highest_view_monotone:
  assumes "consensus_run X E (n, ts) (n', ts')"
  shows "view_number (highest_seen_qc n) \<le> view_number (highest_seen_qc n')"
  using run_view_mono [OF assms] by simp

text \<open>
  C5: Whatever a validator node receives and however its tasks interleave, every batch it
  confirms carries a valid signature and VRF proof of a validator of the address book and was
  announced with a certificate for this batch and its round, which holds at least a quorum of
  signatures, each of a validator of the book on this batch, and no two of the same validator
  other than the node itself.  (The node does not check whether its own vote is already there, nor
  that the votes name the round of the batch.  Tasks are aborted between their critical sections.)
\<close>

theorem confirmed_certified:
  assumes "validator_node X keys vrf_keys E me vpk"
    and "consensus_run X E (consensus_state_new L now qc pool, []) (n, ts)"
    and "b \<in> set (optimistically_confirmed_batches n)"
  shows "verify_batch_signature (x_crypto X) (address_book E) (pb_header b) \<and>
    (\<exists>qc. BroadcastConsensusMessage (NewQuorumCertificate qc) \<in> set (p2p_out n) \<and>
      qc_batch_hash qc = calculate_hash (x_crypto X) (pb_header b) \<and> view_number qc = pb_round b \<and>
      required_quorum (address_book E) \<le> length (qc_signatures qc) \<and>
      distinct (filter (\<lambda>a. a \<noteq> my_address E) (map fst (qc_signatures qc))) \<and>
      (\<forall>(a, sig) \<in> set (qc_signatures qc).
         \<exists>r. verify_vote_signature (x_crypto X) (address_book E) a r (qc_batch_hash qc) sig))"
proof -
  have "auth_ok X E n"
    using validator_node.auth_run_keeps [OF assms(1,2)] initial_ok(2) [of X E L now qc pool] by simp
  with assms(3) have "certified X E n b"
    unfolding auth_ok_def by blast
  then show ?thesis
    unfolding certified_def qc_backed_def batch_hash_def others_def by blast
qed

text \<open>
  An example run of the first validator: a proposal of the second arrives, then the votes of
  the second and the third; with the own vote that is a quorum.
\<close>

definition sample_header :: "u8 \<Rightarrow> u64 \<Rightarrow> BatchHeader" where
  "sample_header k idx =
     (let h = \<lparr>bh_index = idx, prev_hash = replicate 32 0, bh_timestamp = 1, payloads_root = pad 32 [],
               authority = sample_address k, vrf_output = pad 32 (replicate 32 0),
               vrf_proof = pad 64 vrf_context, bh_signature = []\<rparr>
      in h\<lparr>bh_signature := pad SIGNATURE_SIZE (canonical_bytes_for_signing h)\<rparr>)"

definition sample_batch :: "u8 \<Rightarrow> u64 \<Rightarrow> u64 \<Rightarrow> PayloadBatch" where
  "sample_batch k idx r = \<lparr>pb_header = sample_header k idx, pb_payloads = [], pb_justify = genesis_qc, pb_round = r\<rparr>"

definition sample_hash :: "u8 \<Rightarrow> u64 \<Rightarrow> bytes" where
  "sample_hash k idx = calculate_hash sample_crypto (sample_header k idx)"

lemma sample_hash_simps [simp]:
  "length (sample_hash k idx) = 32" "pb_round (sample_batch k idx r) = r"
  "calculate_hash sample_crypto (pb_header (sample_batch k idx r)) = sample_hash k idx"
  by (simp_all add: sample_hash_def calculate_hash_def sample_crypto_def sample_batch_def)

lemma sample_hash_index:
  assumes "sample_hash k i = sample_hash k' j"
  shows "i = j"
proof -
  have "take 8 (sample_hash k i) = to_be_bytes i" for k i
    by (simp add: sample_hash_def calculate_hash_def sample_crypto_def pad_def sample_header_def Let_def)
  with assms show ?thesis
    by (metis to_be_bytes_inj)
qed

lemma sample_batch_ok [simp]:
  assumes "k \<in> {1, 2, 3, 4}"
  shows "verify_batch_signature sample_crypto sample_book (pb_header (sample_batch k idx r))"
  using assms
  by (auto simp: verify_batch_signature_def sample_batch_def sample_header_def book_key_def sample_book_def
      sample_identity_def sample_crypto_def verify_sig_def canonical_bytes_for_signing_def)

lemma sample_sign [simp]:
  "sign_vote sample_crypto (signing_keys (validator_keys (sample_engine k))) (unsigned_vote (sample_engine k) h r) =
     Inr (sample_vote k r h)"
  by (simp add: sign_vote_def public_key_bytes_def keypair_sign_def sample_engine_def sample_crypto_def unsigned_vote_def
      vote_bytes_def sample_vote_def panic_simps)

lemma sample_message_hash [simp]:
  "message_hash sample_crypto sample_borsh (VelocityVoteMsg (sample_vote k r h)) = 2 # k # replicate 30 0"
  "hd (message_hash sample_crypto sample_borsh (IntentBatchProposal b)) = 1"
proof -
  have "take 32 ((2 :: u8) # k # replicate 19 0 @ replicate 32 0) = 2 # k # replicate 30 0"
    by (simp add: replicate_add [symmetric])
  then show "message_hash sample_crypto sample_borsh (VelocityVoteMsg (sample_vote k r h)) = 2 # k # replicate 30 0"
    by (simp add: message_hash_def sample_crypto_def pad_def sample_address_def)
qed (simp add: message_hash_def sample_crypto_def pad_def)

lemma sample_message_hash_neq [simp]:
  "2 # bs \<noteq> message_hash sample_crypto sample_borsh (IntentBatchProposal b)"
proof
  assume "2 # bs = message_hash sample_crypto sample_borsh (IntentBatchProposal b)"
  from arg_cong [OF this, of hd] show False
    by simp
qed

definition sample_start :: "bytes list CoreState" where
  "sample_start = consensus_state_new \<lparr>lru_new = [], lru_contains = (\<lambda>c h. h \<in> set c), lru_put = (#)\<rparr> 0 genesis_qc []"

definition sample_messages :: "(ConsensusMessage \<times> PeerId \<times> nat) list" where
  "sample_messages =
     [(IntentBatchProposal (sample_batch 2 1 1), ''p'', 0), (VelocityVoteMsg (sample_vote 2 1 (sample_hash 2 1)), ''p'', 0),
      (VelocityVoteMsg (sample_vote 3 1 (sample_hash 2 1)), ''p'', 0)]"

definition sample_end :: "bytes list CoreState" where
  "sample_end = exec_tasks (sample_externals Release) (sample_engine 1) (receive_all sample_messages) sample_start"

lemma sample_no_panic [simp]: "\<not> short_hash X (sample_hash k i)"
  by (simp add: short_hash_def)

lemma sample_run: "consensus_run (sample_externals Release) (sample_engine 1) (sample_start, []) (sample_end, [])"
  unfolding sample_end_def by (rule messages_run)

lemma sample_end_confirmed:
  "optimistically_confirmed_batches sample_end = [sample_batch 2 1 1]" "view_number (highest_seen_qc sample_end) = 1"
proof -
  let ?b = "sample_batch 2 1 1"
  have "optimistically_confirmed_batches sample_end =
      [\<lparr>pb_header = pb_header ?b, pb_payloads = pb_payloads ?b, pb_justify = pb_justify ?b, pb_round = 1\<rparr>] \<and>
    view_number (highest_seen_qc sample_end) = 1"
    by (simp add: sample_end_def sample_messages_def receive_all_def sample_start_def consensus_state_new_def dispatch_def
        push_vote_def p2p_send_def process_votes_for_batch_def pending_of_def prune_stale_data_def
        prune_confirmed_proposals_def genesis_qc_def MAX_CONFIRMED_BATCHES_def Let_def)
  then show "optimistically_confirmed_batches sample_end = [sample_batch 2 1 1]" "view_number (highest_seen_qc sample_end) = 1"
    by (simp_all add: sample_batch_def)
qed

theorem confirmed_once_witness:
  "optimistically_confirmed_batches sample_end = [sample_batch 2 1 1] \<and> distinct (certificates_sent sample_end) \<and>
   {sample_hash 2 1} \<subseteq> processed_optimistic_batches sample_end"
  using confirmed_once [OF sample_run [unfolded sample_start_def]] by (simp add: sample_end_confirmed batch_hash_def)

theorem confirmed_certified_witness:
  "\<exists>qc. BroadcastConsensusMessage (NewQuorumCertificate qc) \<in> set (p2p_out sample_end) \<and> qc_batch_hash qc = sample_hash 2 1 \<and>
     3 \<le> length (qc_signatures qc) \<and> distinct (filter (\<lambda>a. a \<noteq> sample_address 1) (map fst (qc_signatures qc)))"
  using confirmed_certified [OF sample_node [of 1] sample_run [unfolded sample_start_def], of "sample_batch 2 1 1"]
  by (auto simp: sample_end_confirmed)

text \<open>
  The own vote can count twice: a validator that lost its state gets its earlier vote back from a peer,
  then the vote of the second validator and the proposal, and votes again.  Two of four
  validators have voted, and the batch is confirmed.
\<close>

definition echo_messages :: "(ConsensusMessage \<times> PeerId \<times> nat) list" where
  "echo_messages =
     [(VelocityVoteMsg (sample_vote 1 1 (sample_hash 2 1)), ''p'', 0), (VelocityVoteMsg (sample_vote 2 1 (sample_hash 2 1)), ''p'', 0),
      (IntentBatchProposal (sample_batch 2 1 1), ''p'', 0)]"

lemma own_vote_counts_twice:
  "optimistically_confirmed_batches
     (exec_tasks (sample_externals Release) (sample_engine 1) (receive_all echo_messages) sample_start) = [sample_batch 2 1 1]"
proof -
  let ?b = "sample_batch 2 1 1"
  have "optimistically_confirmed_batches
     (exec_tasks (sample_externals Release) (sample_engine 1) (receive_all echo_messages) sample_start) =
      [\<lparr>pb_header = pb_header ?b, pb_payloads = pb_payloads ?b, pb_justify = pb_justify ?b, pb_round = 1\<rparr>]"
    by (simp add: sample_message_hash_neq [symmetric] echo_messages_def receive_all_def sample_start_def consensus_state_new_def dispatch_def
        push_vote_def p2p_send_def process_votes_for_batch_def pending_of_def prune_stale_data_def
        prune_confirmed_proposals_def genesis_qc_def MAX_CONFIRMED_BATCHES_def Let_def)
  then show ?thesis
    by (simp add: sample_batch_def)
qed

section \<open>Proposals\<close>

text \<open>The state after a validator has stored a proposal, cast its vote and broadcast it.\<close>

definition voted :: "'c externals \<Rightarrow> PayloadBatch \<Rightarrow> VelocityVote \<Rightarrow> 'c CoreState \<Rightarrow> 'c CoreState" where
  "voted X b v n =
     (let h = calculate_hash (x_crypto X) (pb_header b)
      in p2p_send X (BroadcastConsensusMessage (VelocityVoteMsg v))
           (push_vote h v (n\<lparr>pending_proposals := (pending_proposals n)(h \<mapsto> pending_of b)\<rparr>)))"

lemma handle_batch_proposal_accepts:
  assumes "verify_batch_signature (x_crypto X) (address_book E) (pb_header b)" "\<not> short_hash X h"
    "h = calculate_hash (x_crypto X) (pb_header b)" "pending_proposals n h = None"
    "sign_vote (x_crypto X) (signing_keys (validator_keys E)) (unsigned_vote E h (pb_round b)) = Inr v"
  shows "handle_batch_proposal X E b n = exec_tasks X E [ProcessVotes h] (voted X b v n)"
  using assms by (simp add: handle_batch_proposal_def voted_def Let_def)

lemma proposal_voted:
  assumes "validator_node X keys vrf_keys E me vpk" "verify_batch_signature (x_crypto X) (address_book E) (pb_header b)"
    "h = calculate_hash (x_crypto X) (pb_header b)" "4 \<le> length h" "pending_proposals n h = None"
  obtains v where "BroadcastConsensusMessage (VelocityVoteMsg v) \<in> set (p2p_out (handle_batch_proposal X E b n))"
    "handle_batch_proposal X E b n = exec_tasks X E [ProcessVotes h] (voted X b v n)"
    "voter_address v = my_address E" "round_id v = pb_round b" "v_batch_hash v = h"
    "verify_vote_signature (x_crypto X) (address_book E) (my_address E) (pb_round b) h (v_signature v)"
proof -
  obtain v where v: "sign_vote (x_crypto X) (signing_keys (validator_keys E)) (unsigned_vote E h (pb_round b)) = Inr v"
    "vote_ok X E h v" "round_id v = pb_round b" "v_batch_hash v = h" "voter_address v = my_address E"
    using validator_node.own_vote [OF assms(1)] by blast
  have exec: "handle_batch_proposal X E b n = exec_tasks X E [ProcessVotes h] (voted X b v n)"
    using assms(2-5) v(1) by (intro handle_batch_proposal_accepts) (simp_all add: short_hash_def)
  have "BroadcastConsensusMessage (VelocityVoteMsg v) \<in> set (p2p_out (voted X b v n))"
    using validator_node.p2p_open [OF assms(1)] by (simp add: voted_def p2p_send_def Let_def)
  then have "BroadcastConsensusMessage (VelocityVoteMsg v) \<in> set (p2p_out (handle_batch_proposal X E b n))"
    unfolding exec by (rule sent.exec_keeps) simp
  with exec v show thesis
    using that unfolding vote_ok_def by simp
qed

text \<open>
  C25: A validator that receives a proposal it does not hold yet, with a valid signature and
  VRF proof of a validator, stores it, signs a vote for the hash and round of the proposal
  that passes the check of every node with the same address book, and broadcasts the vote.
  A proposal it already holds, or one without a valid signature, changes nothing.
\<close>

theorem handle_batch_proposal_votes:
  assumes "validator_node X keys vrf_keys E me vpk"
    and "h = calculate_hash (x_crypto X) (pb_header b)" "4 \<le> length h"
  shows "if verify_batch_signature (x_crypto X) (address_book E) (pb_header b) \<and> pending_proposals n h = None
    then \<exists>v. BroadcastConsensusMessage (VelocityVoteMsg v) \<in> set (p2p_out (handle_batch_proposal X E b n)) \<and>
           handle_batch_proposal X E b n = exec_tasks X E [ProcessVotes h] (voted X b v n) \<and>
           voter_address v = my_address E \<and> round_id v = pb_round b \<and> v_batch_hash v = h \<and>
           verify_vote_signature (x_crypto X) (address_book E) (my_address E) (pb_round b) h (v_signature v)
    else handle_batch_proposal X E b n = n"
proof (cases "verify_batch_signature (x_crypto X) (address_book E) (pb_header b) \<and> pending_proposals n h = None")
  case True
  then show ?thesis
    unfolding if_P [OF True] using proposal_voted [OF assms(1) _ assms(2,3), of n] by metis
next
  case False
  then show ?thesis
    using assms(2) by (auto simp: handle_batch_proposal_def Let_def)
qed

lemma sample_start_simps [simp]:
  "pending_proposals sample_start = Map.empty" "velocity_votes sample_start = Map.empty"
  "processed_optimistic_batches sample_start = {}" "p2p_out sample_start = []"
  "highest_seen_qc sample_start = genesis_qc" "mempool sample_start = []" "optimistically_confirmed_batches sample_start = []"
  by (simp_all add: sample_start_def consensus_state_new_def)

theorem handle_batch_proposal_votes_witness:
  "\<exists>v. BroadcastConsensusMessage (VelocityVoteMsg v) \<in>
     set (p2p_out (handle_batch_proposal (sample_externals Release) (sample_engine 1) (sample_batch 2 1 1) sample_start)) \<and>
   voter_address v = sample_address 1 \<and> v_batch_hash v = sample_hash 2 1"
  using handle_batch_proposal_votes [OF sample_node [of 1], of "sample_hash 2 1" Release "sample_batch 2 1 1" sample_start]
  by auto

text \<open>
  C37: Nothing in the vote rule ties a vote to the round: a validator that receives two
  proposals for the same round, signed by validators, with different hashes, votes for both,
  whatever the round, the elected proposer, the parent certificates and the payloads are.
  Both votes pass the check of every node.
\<close>

theorem votes_for_conflicting_batches:
  assumes node: "validator_node X keys vrf_keys E me vpk"
    and ok: "verify_batch_signature (x_crypto X) (address_book E) (pb_header b)"
      "verify_batch_signature (x_crypto X) (address_book E) (pb_header b')"
    and same_round: "pb_round b = r" "pb_round b' = r"
    and hashes: "h = calculate_hash (x_crypto X) (pb_header b)" "h' = calculate_hash (x_crypto X) (pb_header b')"
      "h \<noteq> h'" "4 \<le> length h" "4 \<le> length h'"
    and fresh: "pending_proposals n h = None" "pending_proposals n h' = None"
  shows "\<exists>v v'. {BroadcastConsensusMessage (VelocityVoteMsg v), BroadcastConsensusMessage (VelocityVoteMsg v')} \<subseteq>
      set (p2p_out (handle_batch_proposal X E b' (handle_batch_proposal X E b n))) \<and>
    v_batch_hash v = h \<and> v_batch_hash v' = h' \<and> round_id v = r \<and> round_id v' = r \<and>
    verify_vote_signature (x_crypto X) (address_book E) (my_address E) r h (v_signature v) \<and>
    verify_vote_signature (x_crypto X) (address_book E) (my_address E) r h' (v_signature v')"
proof -
  obtain v where v: "BroadcastConsensusMessage (VelocityVoteMsg v) \<in> set (p2p_out (handle_batch_proposal X E b n))"
    "handle_batch_proposal X E b n = exec_tasks X E [ProcessVotes h] (voted X b v n)" "round_id v = r" "v_batch_hash v = h"
    "verify_vote_signature (x_crypto X) (address_book E) (my_address E) r h (v_signature v)"
    using proposal_voted [OF node ok(1) hashes(1,4) fresh(1)] same_round(1) by metis
  let ?n = "handle_batch_proposal X E b n"
  have "pending_proposals (voted X b v n) h' = None"
    using fresh(2) hashes(1,3) by (simp add: voted_def Let_def)
  then have "pending_proposals ?n h' = None"
    unfolding v(2) exec_process using process_votes_pending [of X E h "voted X b v n"]
    by (simp add: case_prod_beta prune_confirmed_proposals_def)
  then obtain v' where v': "BroadcastConsensusMessage (VelocityVoteMsg v') \<in> set (p2p_out (handle_batch_proposal X E b' ?n))"
    "round_id v' = r" "v_batch_hash v' = h'"
    "verify_vote_signature (x_crypto X) (address_book E) (my_address E) r h' (v_signature v')"
    using proposal_voted [OF node ok(2) hashes(2,5)] same_round(2) by metis
  have "BroadcastConsensusMessage (VelocityVoteMsg v) \<in> set (p2p_out (handle_batch_proposal X E b' ?n))"
    unfolding handle_batch_proposal_def [of X E b'] by (rule sent.exec_keeps [OF v(1)]) simp
  with v v' show ?thesis
    by blast
qed

theorem votes_for_conflicting_batches_witness:
  "\<exists>v v'. {BroadcastConsensusMessage (VelocityVoteMsg v), BroadcastConsensusMessage (VelocityVoteMsg v')} \<subseteq>
     set (p2p_out (handle_batch_proposal (sample_externals Release) (sample_engine 1) (sample_batch 2 2 7)
       (handle_batch_proposal (sample_externals Release) (sample_engine 1) (sample_batch 2 1 7) sample_start))) \<and>
   round_id v = round_id v' \<and> v_batch_hash v \<noteq> v_batch_hash v'"
proof -
  have "sample_hash 2 1 \<noteq> sample_hash 2 2"
    using sample_hash_index [of 2 1 2 2] by auto
  then show ?thesis
    using votes_for_conflicting_batches [OF sample_node [of 1], of Release "sample_batch 2 1 7" "sample_batch 2 2 7" 7
        "sample_hash 2 1" "sample_hash 2 2" sample_start]
    by simp metis
qed

section \<open>Votes\<close>

definition votes_of :: "'c CoreState \<Rightarrow> bytes \<Rightarrow> VelocityVote list" where
  "votes_of n h = (case velocity_votes n h of None \<Rightarrow> [] | Some vs \<Rightarrow> vs)"

text \<open>What is left of a vote's handling once its batch is known: confirmed, or waiting for a quorum.\<close>

definition waiting :: "ConsensusEngine \<Rightarrow> bytes \<Rightarrow> PendingBatch \<Rightarrow> Address set \<Rightarrow> 'c CoreState \<Rightarrow> bool" where
  "waiting E h p voters n \<longleftrightarrow> pending_proposals n h = Some p \<and> voters \<subseteq> voter_address ` set (votes_of n h) \<and>
     (voters \<noteq> {} \<longrightarrow> length (votes_of n h) < required_quorum (address_book E))"

lemma processed_process:
  assumes "pending_proposals n h = Some p" "\<not> short_hash X h" "velocity_votes n h = Some vs"
  shows "if h \<notin> processed_optimistic_batches n \<and> length vs < required_quorum (address_book E)
    then exec_tasks X E [ProcessVotes h] n = n
    else h \<in> processed_optimistic_batches (exec_tasks X E [ProcessVotes h] n)"
  using assms
  by (simp add: exec_process process_votes_for_batch_def Let_def prune_stale_data_def prune_confirmed_proposals_def p2p_send_def)

lemma vote_processed:
  assumes "v_batch_hash v \<notin> processed_optimistic_batches n" "vote_ok X E (v_batch_hash v) v"
  shows "handle_velocity_vote X E v n = exec_tasks X E [ProcessVotes (v_batch_hash v)]
    (if \<exists>v' \<in> set (votes_of n (v_batch_hash v)). voter_address v' = voter_address v then n else push_vote (v_batch_hash v) v n)"
  using assms by (auto simp: handle_velocity_vote_def vote_ok_def votes_of_def split: option.split)

lemma vote_handled:
  assumes "waiting E h p voters n" "vote_ok X E h v" "v_batch_hash v = h" "\<not> short_hash X h"
    "h \<notin> processed_optimistic_batches n"
  shows "h \<in> processed_optimistic_batches (handle_velocity_vote X E v n) \<or>
    waiting E h p (insert (voter_address v) voters) (handle_velocity_vote X E v n)"
proof -
  define m where "m = (if \<exists>v' \<in> set (votes_of n h). voter_address v' = voter_address v then n else push_vote h v n)"
  have exec: "handle_velocity_vote X E v n = exec_tasks X E [ProcessVotes h] m"
    unfolding m_def using vote_processed [of v n X E, unfolded assms(3), OF assms(5,2)] .
  have "\<exists>vs. velocity_votes m h = Some vs"
    by (cases "velocity_votes n h") (simp_all add: m_def votes_of_def push_vote_def)
  then obtain vs where vs: "velocity_votes m h = Some vs" ..
  have m: "pending_proposals m h = Some p" "h \<notin> processed_optimistic_batches m"
    "insert (voter_address v) voters \<subseteq> voter_address ` set (votes_of m h)"
    using assms(1,5) unfolding waiting_def m_def
    by (auto simp: votes_of_def push_vote_def split: option.splits intro: rev_image_eqI)
  show ?thesis
    using processed_process [OF m(1) assms(4) vs, of E] m vs unfolding exec
    by (auto simp: waiting_def votes_of_def split: if_splits)
qed

lemma votes_handled:
  assumes "pending_proposals n h = Some p" "\<not> short_hash X h" "\<forall>v \<in> set vs. vote_ok X E h v \<and> v_batch_hash v = h"
  shows "h \<in> processed_optimistic_batches (fold (handle_velocity_vote X E) vs n) \<or>
    waiting E h p (voter_address ` set vs) (fold (handle_velocity_vote X E) vs n)"
  using assms(3)
proof (induction vs rule: rev_induct)
  case Nil
  with assms(1) show ?case
    by (simp add: waiting_def)
next
  case (snoc v vs)
  let ?n = "fold (handle_velocity_vote X E) vs n"
  show ?case
  proof (cases "h \<in> processed_optimistic_batches ?n")
    case True
    then have "h \<in> processed_optimistic_batches (handle_velocity_vote X E v ?n)"
      unfolding handle_velocity_vote_def by (rule processed.exec_keeps) simp
    then show ?thesis
      by simp
  next
    case False
    with snoc vote_handled [of E h p "voter_address ` set vs" ?n X v] assms(2) show ?thesis
      by simp
  qed
qed

text \<open>A proposal that is held stays held until its batch is confirmed.\<close>

definition held :: "bytes \<Rightarrow> 'c CoreState \<Rightarrow> bool" where
  "held h n \<longleftrightarrow> h \<in> processed_optimistic_batches n \<or> pending_proposals n h \<noteq> None"

lemma held_process: "held h n \<Longrightarrow> held h (exec_tasks X E [ProcessVotes k] n)"
  unfolding exec_process held_def using process_votes_pending [of X E k n] processed_mono [of n X E "ProcessVotes k"]
  by (auto simp: case_prod_beta prune_confirmed_proposals_def)

lemma held_vote:
  assumes "held h n"
  shows "held h (handle_velocity_vote X E v n)"
proof (cases "v_batch_hash v \<notin> processed_optimistic_batches n \<and> vote_ok X E (v_batch_hash v) v")
  case True
  have "held h (if c then n else push_vote k v n)" for c k
    using assms by (simp add: held_def)
  then show ?thesis
    unfolding vote_processed [OF conjunct1 [OF True] conjunct2 [OF True]] by (rule held_process)
next
  case False
  then have "handle_velocity_vote X E v n = n"
    by (auto simp: handle_velocity_vote_def vote_ok_def)
  with assms show ?thesis
    by simp
qed

lemma held_votes: "held h n \<Longrightarrow> held h (fold (handle_velocity_vote X E) vs n)"
  by (induction vs arbitrary: n) (auto intro: held_vote)

lemma processed_votes:
  "h \<in> processed_optimistic_batches n \<Longrightarrow> h \<in> processed_optimistic_batches (fold (handle_velocity_vote X E) vs n)"
  by (induction vs arbitrary: n) (auto simp: handle_velocity_vote_def simp del: exec_tasks.simps intro: processed.exec_keeps)

lemma quorum_processed:
  assumes "held h n" "4 \<le> length h"
    and "\<forall>v \<in> set vs. v_batch_hash v = h \<and>
      verify_vote_signature (x_crypto X) (address_book E) (voter_address v) (round_id v) h (v_signature v)"
    and "distinct (map voter_address vs)" "required_quorum (address_book E) \<le> length vs"
  shows "h \<in> processed_optimistic_batches (fold (handle_velocity_vote X E) vs n)"
proof (rule ccontr)
  let ?n = "fold (handle_velocity_vote X E) vs n"
  assume not: "h \<notin> processed_optimistic_batches ?n"
  then have "h \<notin> processed_optimistic_batches n"
    using processed_votes by blast
  with assms(1) obtain p where "pending_proposals n h = Some p"
    by (auto simp: held_def)
  with not have "waiting E h p (voter_address ` set vs) ?n"
    using votes_handled [of n h p X vs E] assms(2,3) by (auto simp: short_hash_def vote_ok_def)
  moreover have "vs \<noteq> []"
    using assms(5) by (auto simp: required_quorum_def Let_def split: if_splits)
  ultimately have "voter_address ` set vs \<subseteq> voter_address ` set (votes_of ?n h)"
    "length (votes_of ?n h) < required_quorum (address_book E)"
    by (auto simp: waiting_def)
  moreover have "card (voter_address ` set vs) = length vs"
    using assms(4) by (metis distinct_card length_map list.set_map)
  moreover have "card (voter_address ` set (votes_of ?n h)) \<le> length (votes_of ?n h)"
    by (metis card_length length_map list.set_map)
  ultimately show False
    using assms(5) card_mono [of "voter_address ` set (votes_of ?n h)" "voter_address ` set vs"] by simp
qed

text \<open>
  C9: Votes lead to confirmation, in any order: once a proposal is held, receiving valid votes
  for it from a quorum of different validators, in whatever order and with whatever votes
  already stored, marks the batch as confirmed.
\<close>

theorem quorum_confirms:
  assumes "pending_proposals n h = Some p" "4 \<le> length h"
    and "\<forall>v \<in> set vs. v_batch_hash v = h \<and>
      verify_vote_signature (x_crypto X) (address_book E) (voter_address v) (round_id v) h (v_signature v)"
    and "distinct (map voter_address vs)" "required_quorum (address_book E) \<le> length vs"
  shows "h \<in> processed_optimistic_batches (fold (handle_velocity_vote X E) vs n)"
  using assms by (intro quorum_processed) (simp_all add: held_def)

definition sample_pending :: "bytes list CoreState" where
  "sample_pending = sample_start\<lparr>pending_proposals := [sample_hash 2 1 \<mapsto> pending_of (sample_batch 2 1 1)]\<rparr>"

theorem quorum_confirms_witness:
  "sample_hash 2 1 \<in> processed_optimistic_batches (fold (handle_velocity_vote (sample_externals Release) (sample_engine 1))
     [sample_vote 4 1 (sample_hash 2 1), sample_vote 2 1 (sample_hash 2 1), sample_vote 3 1 (sample_hash 2 1)] sample_pending)"
  by (rule quorum_confirms [where p = "pending_of (sample_batch 2 1 1)"]) (simp_all add: sample_pending_def)

lemma proposal_held:
  assumes "validator_node X keys vrf_keys E me vpk" "verify_batch_signature (x_crypto X) (address_book E) (pb_header b)"
    "h = calculate_hash (x_crypto X) (pb_header b)" "4 \<le> length h" "pending_proposals n h = None"
  shows "held h (handle_batch_proposal X E b n)"
    and "held k n \<Longrightarrow> held k (handle_batch_proposal X E b n)"
    and "k \<noteq> h \<Longrightarrow> pending_proposals n k = None \<Longrightarrow> pending_proposals (handle_batch_proposal X E b n) k = None"
proof -
  obtain v where exec: "handle_batch_proposal X E b n = exec_tasks X E [ProcessVotes h] (voted X b v n)"
    using proposal_voted [OF assms] by metis
  have "held h (voted X b v n)" "held k n \<Longrightarrow> held k (voted X b v n)"
    by (simp_all add: held_def voted_def Let_def assms(3))
  then show "held h (handle_batch_proposal X E b n)" "held k n \<Longrightarrow> held k (handle_batch_proposal X E b n)"
    unfolding exec by (blast intro: held_process)+
  assume k: "k \<noteq> h" "pending_proposals n k = None"
  then have "pending_proposals (voted X b v n) k = None"
    by (simp add: voted_def Let_def assms(3))
  then show "pending_proposals (handle_batch_proposal X E b n) k = None"
    unfolding exec exec_process using process_votes_pending [of X E h "voted X b v n"]
    by (simp add: case_prod_beta prune_confirmed_proposals_def)
qed

text \<open>
  C7: Confirmed batches of one round can conflict.  A validator that receives two proposals for the
  same round with different hashes, each with a valid signature, and for each the votes of a quorum
  of different validators in that round, confirms both.  No validator has to misbehave but the
  proposer: a validator that runs this code casts both votes.
\<close>

theorem conflicting_batches_confirmed:
  assumes node: "validator_node X keys vrf_keys E me vpk"
    and ok: "verify_batch_signature (x_crypto X) (address_book E) (pb_header b)"
      "verify_batch_signature (x_crypto X) (address_book E) (pb_header b')"
    and same_round: "pb_round b = r" "pb_round b' = r"
    and hashes: "h = calculate_hash (x_crypto X) (pb_header b)" "h' = calculate_hash (x_crypto X) (pb_header b')"
      "h \<noteq> h'" "4 \<le> length h" "4 \<le> length h'"
    and fresh: "pending_proposals n h = None" "pending_proposals n h' = None"
    and votes: "\<forall>v \<in> set vs. v_batch_hash v = h \<and> round_id v = r \<and>
        verify_vote_signature (x_crypto X) (address_book E) (voter_address v) r h (v_signature v)"
      "\<forall>v \<in> set vs'. v_batch_hash v = h' \<and> round_id v = r \<and>
        verify_vote_signature (x_crypto X) (address_book E) (voter_address v) r h' (v_signature v)"
    and quorums: "distinct (map voter_address vs)" "required_quorum (address_book E) \<le> length vs"
      "distinct (map voter_address vs')" "required_quorum (address_book E) \<le> length vs'"
  shows "{h, h'} \<subseteq> processed_optimistic_batches
    (fold (handle_velocity_vote X E) (vs @ vs') (handle_batch_proposal X E b' (handle_batch_proposal X E b n)))"
proof -
  let ?n = "handle_batch_proposal X E b n"
  note first = proposal_held [OF node ok(1) hashes(1,4) fresh(1)]
  have "pending_proposals ?n h' = None"
    using hashes(3) fresh(2) by (intro first(3)) auto
  note second = proposal_held [OF node ok(2) hashes(2,5) this]
  let ?m = "handle_batch_proposal X E b' ?n"
  have "held h ?m" "held h' (fold (handle_velocity_vote X E) vs ?m)"
    using first(1) second(1,2) by (blast intro: held_votes)+
  then have "h \<in> processed_optimistic_batches (fold (handle_velocity_vote X E) vs ?m)"
    "h' \<in> processed_optimistic_batches (fold (handle_velocity_vote X E) vs' (fold (handle_velocity_vote X E) vs ?m))"
    using votes quorums hashes by (auto intro!: quorum_processed)
  then show ?thesis
    by (simp add: processed_votes)
qed

definition sample_votes :: "bytes \<Rightarrow> VelocityVote list" where
  "sample_votes h = [sample_vote 2 7 h, sample_vote 3 7 h, sample_vote 4 7 h]"

theorem conflicting_batches_confirmed_witness:
  "{sample_hash 2 1, sample_hash 2 2} \<subseteq> processed_optimistic_batches
     (fold (handle_velocity_vote (sample_externals Release) (sample_engine 1)) (sample_votes (sample_hash 2 1) @ sample_votes (sample_hash 2 2))
       (handle_batch_proposal (sample_externals Release) (sample_engine 1) (sample_batch 2 2 7)
         (handle_batch_proposal (sample_externals Release) (sample_engine 1) (sample_batch 2 1 7) sample_start)))"
proof -
  have "sample_hash 2 1 \<noteq> sample_hash 2 2"
    using sample_hash_index [of 2 1 2 2] by auto
  then show ?thesis
    by (intro conflicting_batches_confirmed [OF sample_node [of 1], where r = 7]) (simp_all add: sample_votes_def)
qed

text \<open>The certificate that a quorum of stored votes gives is broadcast.\<close>

lemma certificate_broadcast:
  assumes "h \<notin> processed_optimistic_batches n" "velocity_votes n h = Some vs" "pending_proposals n h = Some p"
    "4 \<le> length h" "required_quorum (address_book E) \<le> length vs" "x_p2p_open X"
  shows "BroadcastConsensusMessage (NewQuorumCertificate (votes_qc h p vs)) \<in> set (p2p_out (exec_tasks X E [ProcessVotes h] n))"
  using assms
  by (simp add: exec_process process_votes_for_batch_def votes_qc_def Let_def prune_stale_data_def prune_confirmed_proposals_def
      p2p_send_def short_hash_def)

lemma anchor_view:
  "view_number qc \<le> view_number (highest_seen_qc (exec_tasks X E [AnchorQc qc peer now] n))"
  by (auto simp: p2p_send_def)

lemma count_valid_filter:
  "count_valid CR ab view h seen sigs \<le> length (filter (\<lambda>(a, sig). verify_vote_signature CR ab a view h sig) sigs)"
  by (induction CR ab view h seen sigs rule: count_valid.induct) auto

text \<open>
  C26: When the votes a node has stored for a batch are a quorum of different validators, all
  for the round of the proposal, the certificate it broadcasts is accepted by every node with
  the same address book, whose highest view is then at least the round of the batch.
\<close>

theorem matching_certificate_accepted:
  assumes "h \<notin> processed_optimistic_batches n" "velocity_votes n h = Some vs" "pending_proposals n h = Some p"
    "4 \<le> length h" "required_quorum (address_book E) \<le> length vs" "x_p2p_open X" "distinct (map voter_address vs)"
    "\<forall>v \<in> set vs. verify_vote_signature (x_crypto X) (address_book E) (voter_address v) (pend_round p) h (v_signature v)"
    "address_book E' = address_book E"
  shows "\<exists>qc. BroadcastConsensusMessage (NewQuorumCertificate qc) \<in> set (p2p_out (exec_tasks X E [ProcessVotes h] n)) \<and>
    qc_batch_hash qc = h \<and> view_number qc = pend_round p \<and> qc_valid (x_crypto X) (address_book E') qc \<and>
    pend_round p \<le> view_number (highest_seen_qc (handle_new_quorum_certificate X E' qc peer now m))"
proof -
  have "count_valid (x_crypto X) (address_book E) (pend_round p) h {} (qc_signatures (votes_qc h p vs)) = length vs"
    using assms(7,8) count_valid_all [of "qc_signatures (votes_qc h p vs)" "x_crypto X" "address_book E" "pend_round p" h "{}"]
    by (auto simp: votes_qc_def comp_def)
  then have valid: "qc_valid (x_crypto X) (address_book E') (votes_qc h p vs)"
    using assms(5,9) by (simp add: qc_valid_def) (simp add: votes_qc_def)
  then have "handle_new_quorum_certificate X E' (votes_qc h p vs) peer now m =
      exec_tasks X E' [AnchorQc (votes_qc h p vs) peer now] m"
    by (simp add: handle_new_quorum_certificate_def)
  with anchor_view [of "votes_qc h p vs" X E' peer now m] valid certificate_broadcast [OF assms(1-6)] show ?thesis
    by (intro exI [of _ "votes_qc h p vs"]) (simp add: votes_qc_def)
qed

definition sample_voted :: "u64 \<Rightarrow> bytes list CoreState" where
  "sample_voted r = sample_pending\<lparr>velocity_votes := [sample_hash 2 1 \<mapsto>
     [sample_vote 1 1 (sample_hash 2 1), sample_vote 2 1 (sample_hash 2 1), sample_vote 3 r (sample_hash 2 1)]]\<rparr>"

theorem matching_certificate_accepted_witness:
  "\<exists>qc. BroadcastConsensusMessage (NewQuorumCertificate qc) \<in>
       set (p2p_out (exec_tasks (sample_externals Release) (sample_engine 1) [ProcessVotes (sample_hash 2 1)] (sample_voted 1))) \<and>
     1 \<le> view_number (highest_seen_qc (handle_new_quorum_certificate (sample_externals Release) (sample_engine 4) qc ''p'' 0 sample_start))"
proof -
  have "pend_round (pending_of (sample_batch 2 1 1)) = 1"
    by (simp add: pending_of_def)
  with matching_certificate_accepted [of "sample_hash 2 1" "sample_voted 1" _ "pending_of (sample_batch 2 1 1)" "sample_engine 1"
      "sample_externals Release" "sample_engine 4" "''p''" 0 sample_start]
  show ?thesis
    by (auto simp: sample_voted_def sample_pending_def simp del: exec_tasks.simps)
qed

text \<open>
  C38: Votes are counted whatever round they name.  When one vote of a bare quorum is for
  another round than the proposal's, the certificate the node broadcasts is invalid: a node
  with the same address book rejects it, leaves its state as it was and asks for a penalty of
  50 for the sender, which is the ban threshold.
\<close>

theorem stray_round_certificate_rejected:
  assumes "h \<notin> processed_optimistic_batches n" "velocity_votes n h = Some vs" "pending_proposals n h = Some p"
    "4 \<le> length h" "length vs = required_quorum (address_book E)" "x_p2p_open X"
    "v \<in> set vs" "\<not> verify_vote_signature (x_crypto X) (address_book E) (voter_address v) (pend_round p) h (v_signature v)"
    "address_book E' = address_book E"
  shows "\<exists>qc. BroadcastConsensusMessage (NewQuorumCertificate qc) \<in> set (p2p_out (exec_tasks X E [ProcessVotes h] n)) \<and>
    qc_batch_hash qc = h \<and>
    handle_new_quorum_certificate X E' qc peer now m = m\<lparr>p2p_out := p2p_out m @ [ApplyPenalty peer (- 50)]\<rparr>"
proof -
  let ?P = "\<lambda>(a, sig). verify_vote_signature (x_crypto X) (address_book E) a (pend_round p) h sig"
  have "length (filter ?P (qc_signatures (votes_qc h p vs))) < length (qc_signatures (votes_qc h p vs))"
    using assms(7,8) by (intro length_filter_less [of "(voter_address v, v_signature v)"]) (auto simp: votes_qc_def)
  then have "\<not> qc_valid (x_crypto X) (address_book E') (votes_qc h p vs)"
    using count_valid_filter [of "x_crypto X" "address_book E" "pend_round p" h "{}" "qc_signatures (votes_qc h p vs)"] assms(5,9)
    by (simp add: qc_valid_def) (simp add: votes_qc_def)
  then have "handle_new_quorum_certificate X E' (votes_qc h p vs) peer now m = m\<lparr>p2p_out := p2p_out m @ [ApplyPenalty peer (- 50)]\<rparr>"
    using assms(6) by (simp add: handle_new_quorum_certificate_def p2p_send_def)
  moreover have "BroadcastConsensusMessage (NewQuorumCertificate (votes_qc h p vs)) \<in> set (p2p_out (exec_tasks X E [ProcessVotes h] n))"
    using assms(5) by (intro certificate_broadcast [OF assms(1-4) _ assms(6)]) simp
  ultimately show ?thesis
    by (intro exI [of _ "votes_qc h p vs"]) (simp add: votes_qc_def)
qed

lemma sample_other_round:
  "verify_vote_signature sample_crypto sample_book (sample_address 3) r h (v_signature (sample_vote 3 r' h)) \<Longrightarrow> r = r'"
proof -
  assume "verify_vote_signature sample_crypto sample_book (sample_address 3) r h (v_signature (sample_vote 3 r' h))"
  then have "pad SIGNATURE_SIZE (to_be_bytes r @ h @ sample_pk 3) = pad SIGNATURE_SIZE (to_be_bytes r' @ h @ sample_pk 3)"
    by (simp add: verify_vote_signature_def book_key_def sample_book_def sample_identity_def sample_vote_def
        verify_sig_def sample_crypto_def vote_bytes_def)
  then have "take 8 (pad SIGNATURE_SIZE (to_be_bytes r @ h @ sample_pk 3)) = take 8 (pad SIGNATURE_SIZE (to_be_bytes r' @ h @ sample_pk 3))"
    by simp
  then show "r = r'"
    by (simp add: pad_def SIGNATURE_SIZE_def to_be_bytes_inj)
qed

theorem stray_round_certificate_rejected_witness:
  "\<exists>qc. BroadcastConsensusMessage (NewQuorumCertificate qc) \<in>
       set (p2p_out (exec_tasks (sample_externals Release) (sample_engine 1) [ProcessVotes (sample_hash 2 1)] (sample_voted 2))) \<and>
     p2p_out (handle_new_quorum_certificate (sample_externals Release) (sample_engine 4) qc ''p'' 0 sample_start) = [ApplyPenalty ''p'' (- 50)]"
proof -
  have "\<not> verify_vote_signature sample_crypto sample_book (sample_address 3) (pend_round (pending_of (sample_batch 2 1 1)))
      (sample_hash 2 1) (v_signature (sample_vote 3 2 (sample_hash 2 1)))"
    using sample_other_round [of 1 "sample_hash 2 1" 2] by (auto simp: pending_of_def)
  with stray_round_certificate_rejected [of "sample_hash 2 1" "sample_voted 2" _ "pending_of (sample_batch 2 1 1)" "sample_engine 1"
      "sample_externals Release" "sample_vote 3 2 (sample_hash 2 1)" "sample_engine 4" "''p''" 0 sample_start]
  show ?thesis
    by (auto simp: sample_voted_def sample_pending_def simp del: exec_tasks.simps)
qed

end
