(* ===== verification/Consensus_Rounds.thy ===== *)
theory Consensus_Rounds
  imports Consensus_Claims
begin

text \<open>
  The rounds of the consensus engine: the election of the sub-committee, the round driver of
  \<^verbatim>\<open>ConsensusEngine::run\<close> with its 64-bit counters, and the proposer.
\<close>

section \<open>Election\<close>

lemma sort_same:
  fixes xs ys :: "'a :: linorder list"
  assumes "mset xs = mset ys"
  shows "sort xs = sort ys"
  using assms by (metis sorted_list_of_multiset_mset)

lemma sub_committee_members:
  assumes "\<And>seed xs. mset (x_shuffle X seed xs) = mset xs" "distinct (map fst (address_book E))"
  shows "distinct (determine_sub_committee X E r seed)" "set (determine_sub_committee X E r seed) \<subseteq> fst ` set (address_book E)"
    "length (determine_sub_committee X E r seed) = min (sub_committee_size (genesis_params E)) (length (address_book E))"
proof -
  let ?s = "x_shuffle X (sha256 (x_crypto X) (seed @ to_be_bytes r)) (sort (map fst (address_book E)))"
  have m: "mset ?s = mset (map fst (address_book E))"
    by (simp add: assms(1))
  have "distinct ?s" "set ?s = fst ` set (address_book E)" "length ?s = length (address_book E)"
    using mset_eq_imp_distinct_iff [OF m] assms(2) mset_eq_setD [OF m] mset_eq_length [OF m] by simp_all
  then show "distinct (determine_sub_committee X E r seed)"
    "set (determine_sub_committee X E r seed) \<subseteq> fst ` set (address_book E)"
    "length (determine_sub_committee X E r seed) = min (sub_committee_size (genesis_params E)) (length (address_book E))"
    by (auto simp: determine_sub_committee_def Let_def dest: in_set_takeD)
qed

text \<open>
  C27: Given that the shuffle of the generator permutes its list, two nodes whose address books
  hold the same validators, in whatever order their hash maps list them, elect the same
  sub-committee from the same seed: it has the configured size or all validators, nobody sits in
  it twice, and of two nodes that both find themselves to be the proposer of a step, one is the
  other.
\<close>

theorem sub_committee_agreement:
  assumes "\<And>seed xs. mset (x_shuffle X seed xs) = mset xs"
    and "distinct (map fst (address_book E))" "mset (map fst (address_book E)) = mset (map fst (address_book E'))"
    and "genesis_params E = genesis_params E'"
  shows "determine_sub_committee X E r seed = determine_sub_committee X E' r seed \<and>
    distinct (determine_sub_committee X E r seed) \<and>
    set (determine_sub_committee X E r seed) \<subseteq> fst ` set (address_book E) \<and>
    length (determine_sub_committee X E r seed) = min (sub_committee_size (genesis_params E)) (length (address_book E)) \<and>
    (snd (task_step X E (ElectProposer r s seed ts) n) \<noteq> [] \<and> snd (task_step X E' (ElectProposer r s seed ts') n') \<noteq> []
       \<longrightarrow> my_address E = my_address E')"
proof -
  have "map fst (address_book E) = [] \<longleftrightarrow> map fst (address_book E') = []"
    using mset_eq_length [OF assms(3)] by (metis length_0_conv)
  then have "determine_sub_committee X E r seed = determine_sub_committee X E' r seed"
    by (simp add: determine_sub_committee_def Let_def sort_same [OF assms(3)] assms(4))
  with sub_committee_members [OF assms(1,2), of r seed] show ?thesis
    by (auto simp: Let_def split: if_splits)
qed

theorem sub_committee_agreement_witness:
  "determine_sub_committee (sample_externals Release) (sample_engine 1) 5 [1] =
     determine_sub_committee (sample_externals Release) (sample_engine 2) 5 [1] \<and>
   length (determine_sub_committee (sample_externals Release) (sample_engine 1) 5 [1]) = 2"
proof -
  have "distinct (map fst sample_book)" "length sample_book = 4"
    by (simp_all add: sample_book_def)
  then show ?thesis
    using sub_committee_agreement [of "sample_externals Release" "sample_engine 1" "sample_engine 2" 5 "[1]" 0 0 sample_start 0 sample_start]
    by auto
qed

section \<open>The driver\<close>

text \<open>
  C28: As long as no counter is at its maximum, the driver never panics and always moves
  forward: it does nothing exactly while the round is ahead of the highest certificate and the
  proposer has time left, and otherwise goes to a later round, or to a later step of the same
  round, above the highest certified view and with a step inside the sub-committee.
\<close>

theorem driver_advances:
  assumes "unat (view_number (highest_seen_qc n)) + 1 < 2 ^ 64" "unat (current_round n) + 1 < 2 ^ 64"
    "unat (current_step n) + 1 < 2 ^ 64"
  shows "\<exists>d. driver_decision X E now n = Inr d \<and>
    (case d of
       None \<Rightarrow> view_number (highest_seen_qc n) < current_round n \<and>
         now - step_start_time n \<le> unat (proposer_timeout_ms (genesis_params E))
     | Some (r, s) \<Rightarrow> view_number (highest_seen_qc n) < r \<and> current_round n \<le> r \<and>
         (r = current_round n \<longrightarrow> current_step n < s) \<and>
         (s = 0 \<or> unat s < sub_committee_size (genesis_params E)))"
proof -
  have add: "add_u64 (x_profile X) a 1 = Inr (a + 1)" "a < a + 1" if "unat a + 1 < 2 ^ 64" for a
    using add_u64_exact [of a 1 "x_profile X"] that by (auto simp: word_less_nat_alt)
  show ?thesis
    using add [OF assms(1)] add [OF assms(2)] add [OF assms(3)]
    by (auto simp: driver_decision_def Let_def panic_simps not_less)
qed

theorem driver_advances_witness:
  "\<exists>d. driver_decision (sample_externals Release) (sample_engine 1) 2000 sample_start = Inr d"
  using driver_advances [of sample_start "sample_externals Release" "sample_engine 1" 2000]
  by (auto simp: sample_start_def consensus_state_new_def genesis_qc_def)

lemma max_view_decision:
  assumes "view_number (highest_seen_qc n) = - 1"
  shows "driver_decision X E now n = (case x_profile X of Debug \<Rightarrow> Inl ArithmeticOverflow | Release \<Rightarrow> Inr (Some (0, 0)))"
proof -
  have "unat (- 1 :: u64) = 2 ^ 64 - 1" "current_round n \<le> - 1"
    by (simp_all add: unsigned_minus_1_eq_mask mask_eq_exp_minus_1)
  with assms show ?thesis
    by (cases "x_profile X") (simp_all add: driver_decision_def Let_def add_u64_def)
qed

text \<open>
  C39: One accepted certificate for the round \<^verbatim>\<open>u64::MAX\<close> ends the progress of rounds for good:
  in every later state, whatever messages arrive and however tasks interleave, the driver of a
  debug build panics, and that of a release build goes back to round 0, step 0 at every tick.
  No check bounds the round of a proposal, so any validator can have such a batch voted on.
\<close>

theorem max_round_stops_driver:
  assumes "qc_valid (x_crypto X) (address_book E) qc" "view_number qc = - 1"
    and "consensus_run X E (handle_new_quorum_certificate X E qc peer now n, ts) (n', ts')"
  shows "driver_decision X E now' n' =
    (case x_profile X of Debug \<Rightarrow> Inl ArithmeticOverflow | Release \<Rightarrow> Inr (Some (0, 0)))"
proof (rule max_view_decision)
  have "- 1 \<le> view_number (highest_seen_qc (handle_new_quorum_certificate X E qc peer now n))"
    using anchor_view [of qc X E peer now n] assms(1,2) by (simp add: handle_new_quorum_certificate_def)
  also have "\<dots> \<le> view_number (highest_seen_qc n')"
    using run_view_mono [OF assms(3)] by simp
  finally show "view_number (highest_seen_qc n') = - 1"
    by (simp add: word_order.extremum_unique)
qed

theorem max_round_stops_driver_witness:
  "driver_decision (sample_externals Debug) (sample_engine 1) 9
     (handle_new_quorum_certificate (sample_externals Debug) (sample_engine 1) (sample_qc (- 1) [1, 2, 3, 4] [1, 2, 3]) ''p'' 0 sample_start) =
   Inl ArithmeticOverflow"
  using max_round_stops_driver [of "sample_externals Debug" "sample_engine 1" "sample_qc (- 1) [1, 2, 3, 4] [1, 2, 3]" "''p''" 0 sample_start "[]" _ "[]" 9,
      OF _ _ consensus_run.start] sample_qc_valid [of "[1, 2, 3]" "- 1" "[1, 2, 3, 4]"]
  by (simp add: sample_qc_def)

section \<open>The proposer\<close>

lemma process_mempool: "mempool (exec_tasks X E [ProcessVotes h] n) = mempool n"
  by (simp add: exec_process process_votes_for_batch_def Let_def prune_stale_data_def prune_confirmed_proposals_def
      p2p_send_def panic_def split: option.split)

text \<open>From the built batch on: it is stored, broadcast and voted for.\<close>

lemma propose_insert:
  assumes "validator_node X keys vrf_keys E me vpk" "4 \<le> length (calculate_hash (x_crypto X) (pb_header b))"
  shows "BroadcastConsensusMessage (IntentBatchProposal b) \<in> set (p2p_out (exec_tasks X E [ProposeInsert b] n))"
    and "mempool (exec_tasks X E [ProposeInsert b] n) = mempool n"
proof -
  let ?h = "calculate_hash (x_crypto X) (pb_header b)"
  obtain v where v: "sign_vote (x_crypto X) (signing_keys (validator_keys E)) (unsigned_vote E ?h (pb_round b)) = Inr v"
    using validator_node.own_vote [OF assms(1)] by blast
  define m where "m = p2p_send X (BroadcastConsensusMessage (IntentBatchProposal b))
    (n\<lparr>pending_proposals := (pending_proposals n)(?h \<mapsto> pending_of b)\<rparr>)"
  have exec: "exec_tasks X E [ProposeInsert b] n = exec_tasks X E [ProcessVotes ?h] (push_vote ?h v m)"
    using assms(2) v by (simp add: m_def Let_def short_hash_def)
  have "BroadcastConsensusMessage (IntentBatchProposal b) \<in> set (p2p_out (push_vote ?h v m))"
    using validator_node.p2p_open [OF assms(1)] by (simp add: m_def p2p_send_def)
  then show "BroadcastConsensusMessage (IntentBatchProposal b) \<in> set (p2p_out (exec_tasks X E [ProposeInsert b] n))"
    unfolding exec by (rule sent.exec_keeps) simp
  show "mempool (exec_tasks X E [ProposeInsert b] n) = mempool n"
    unfolding exec process_mempool by (simp add: m_def push_vote_def p2p_send_def)
qed

text \<open>
  C24: A validator that proposes takes the first hundred payloads from its pool, and only those,
  and broadcasts them in a batch for the round, on top of the last confirmed batch and the
  highest certificate, whose payload root is that of the payloads and whose signature and VRF
  proof pass the check of every node with the same address book.
\<close>

theorem proposal_accepted:
  assumes "validator_node X keys vrf_keys E me vpk" "\<And>bs. 4 \<le> length (sha256 (x_crypto X) bs)"
    and "unat (fst (parent_link X n)) + 1 < 2 ^ 64"
  shows "\<exists>b. BroadcastConsensusMessage (IntentBatchProposal b) \<in> set (p2p_out (run_proposer_flow X E r ts n)) \<and>
    verify_batch_signature (x_crypto X) (address_book E) (pb_header b) \<and>
    pb_payloads b = take 100 (mempool n) \<and> mempool (run_proposer_flow X E r ts n) = drop 100 (mempool n) \<and>
    payloads_root (pb_header b) = calculate_payloads_root (x_crypto X) (pb_payloads b) \<and>
    pb_round b = r \<and> pb_justify b = highest_seen_qc n \<and>
    bh_index (pb_header b) = fst (parent_link X n) + 1 \<and> prev_hash (pb_header b) = snd (parent_link X n)"
proof -
  let ?ps = "take (min (length (mempool n)) 100) (mempool n)"
  let ?m = "n\<lparr>mempool := drop (min (length (mempool n)) 100) (mempool n)\<rparr>"
  have link: "parent_link X ?m = parent_link X n"
    by (simp add: parent_link_def)
  obtain b where b: "propose_build X E r (highest_seen_qc n) ?ps ts ?m = Inr b"
    and f: "pb_payloads b = ?ps" "payloads_root (pb_header b) = calculate_payloads_root (x_crypto X) ?ps" "pb_round b = r"
      "pb_justify b = highest_seen_qc n" "bh_index (pb_header b) = fst (parent_link X n) + 1" "prev_hash (pb_header b) = snd (parent_link X n)"
    using validator_node.own_signs [OF assms(1)] add_u64_exact [of "fst (parent_link X n)" 1 "x_profile X"] assms(3) link
    by (simp add: propose_build_def proposal_header_def Let_def case_prod_beta)
  have exec: "run_proposer_flow X E r ts n = exec_tasks X E [ProposeInsert b] ?m"
    using b by (simp add: run_proposer_flow_def)
  have "4 \<le> length (calculate_hash (x_crypto X) (pb_header b))"
    by (simp add: calculate_hash_def assms(2))
  from propose_insert [OF assms(1) this, of ?m] validator_node.own_batch [OF assms(1) b] f
  show ?thesis
    unfolding exec by (intro exI [of _ b]) (auto simp: min_def)
qed

theorem proposal_accepted_witness:
  "\<exists>b. BroadcastConsensusMessage (IntentBatchProposal b) \<in>
       set (p2p_out (run_proposer_flow (sample_externals Debug) (sample_engine 1) 3 0 (sample_start\<lparr>mempool := [AppPayload [1]]\<rparr>))) \<and>
     pb_payloads b = [AppPayload [1]] \<and> verify_batch_signature sample_crypto sample_book (pb_header b)"
proof -
  have "4 \<le> length (sha256 sample_crypto bs)" for bs
    by (simp add: sample_crypto_def)
  then show ?thesis
    using proposal_accepted [OF sample_node [of 1], of Debug "sample_start\<lparr>mempool := [AppPayload [1]]\<rparr>" 3 0]
    by (auto simp: parent_link_def)
qed

end
