(* ===== verification/Keystore.thy ===== *)
theory Keystore
  imports Seq_Types Texts
begin

text \<open>
  The encrypted key file of a validator (\<^verbatim>\<open>evice-multi-sequencer/src/keystore.rs\<close>): sealing a private
  key with a password, opening it, and saving the file by way of a temporary file, on a disk whose
  contents survive a crash only as far as they were synced.  Key derivation, the authenticated
  cipher, the hexadecimal code and the JSON of the file are arguments; random bytes and identifiers
  are inputs.
\<close>

section \<open>Data\<close>

record CipherParams =
  ks_nonce :: string

record KdfParams =
  kdf_dklen :: u32
  kdf_n :: u32
  kdf_p :: u32
  kdf_r :: u32
  kdf_salt :: string

record Crypto =
  ks_cipher :: string
  ks_ciphertext :: string
  cipherparams :: CipherParams
  ks_kdf :: string
  kdfparams :: KdfParams
  ks_mac :: string

record Keystore =
  ks_address :: string
  ks_public_key :: string
  ks_crypto :: Crypto
  ks_id :: string
  ks_version :: u8

datatype KeystoreError =
    Io
  | Serde
  | Hex
  | ScryptParams
  | ScryptOutputLen
  | Cipher
  | PaddingError
  | InvalidPassword
  | InvalidKeyLength
  | UnsupportedVersion u8
  | AeadError

record keystore_ops =
  ks_hex_encode :: "bytes \<Rightarrow> string"
  ks_hex_decode :: "string \<Rightarrow> bytes option"
  scrypt_params_ok :: "nat \<Rightarrow> u32 \<Rightarrow> u32 \<Rightarrow> bool"
  scrypt :: "string \<Rightarrow> bytes \<Rightarrow> nat \<Rightarrow> u32 \<Rightarrow> u32 \<Rightarrow> bytes option"
  aead_encrypt :: "bytes \<Rightarrow> bytes \<Rightarrow> bytes \<Rightarrow> bytes option"
  aead_decrypt :: "bytes \<Rightarrow> bytes \<Rightarrow> bytes \<Rightarrow> bytes option"

text \<open>An operation panics, fails with an error, or returns a value.\<close>

type_synonym 'a fallible = "rust_panic + KeystoreError + 'a"

abbreviation fail :: "KeystoreError \<Rightarrow> 'a fallible" where
  "fail e \<equiv> Inr (Inl e)"

abbreviation done_with :: "'a \<Rightarrow> 'a fallible" where
  "done_with x \<equiv> Inr (Inr x)"

definition or_fail :: "KeystoreError \<Rightarrow> 'a option \<Rightarrow> ('a \<Rightarrow> 'b fallible) \<Rightarrow> 'b fallible" where
  "or_fail e x f = (case x of None \<Rightarrow> fail e | Some v \<Rightarrow> f v)"

lemma or_fail_simps [simp]: "or_fail e None f = fail e" "or_fail e (Some v) f = f v"
  by (simp_all add: or_fail_def)

section \<open>Sealing and opening\<close>

text \<open>The checksum over the second half of the derived key and the ciphertext.\<close>

definition ks_checksum :: "crypto_ops \<Rightarrow> bytes \<Rightarrow> bytes \<Rightarrow> bytes" where
  "ks_checksum CR key ciphertext = keccak256 CR (take 16 (drop 16 key) @ ciphertext)"

definition keystore_new ::
  "crypto_ops \<Rightarrow> keystore_ops \<Rightarrow> bytes \<Rightarrow> bytes \<Rightarrow> string \<Rightarrow> bytes \<Rightarrow> string \<Rightarrow> bytes \<Rightarrow> Keystore fallible" where
  "keystore_new CR K salt nonce ident sk password pk =
     (if \<not> scrypt_params_ok K 18 8 1 then fail ScryptParams
      else or_fail ScryptOutputLen (scrypt K password salt 18 8 1) (\<lambda>derived_key.
           or_fail AeadError (aead_encrypt K derived_key nonce sk) (\<lambda>ciphertext.
             case public_key_to_address CR pk of
               Inl e \<Rightarrow> Inl e
             | Inr addr \<Rightarrow> done_with
                 \<lparr>ks_address = ks_hex_encode K (addr_bytes addr), ks_public_key = ks_hex_encode K pk,
                  ks_crypto = \<lparr>ks_cipher = ''xchacha20poly1305'', ks_ciphertext = ks_hex_encode K ciphertext,
                    cipherparams = \<lparr>ks_nonce = ks_hex_encode K nonce\<rparr>, ks_kdf = ''scrypt'',
                    kdfparams = \<lparr>kdf_dklen = 32, kdf_n = 262144, kdf_p = 1, kdf_r = 8, kdf_salt = ks_hex_encode K salt\<rparr>,
                    ks_mac = ks_hex_encode K (ks_checksum CR derived_key ciphertext)\<rparr>,
                  ks_id = ident, ks_version = 4\<rparr>)))"

text \<open>The integer logarithm of \<^verbatim>\<open>u32::ilog2\<close>, which panics on zero.\<close>

fun nat_log2 :: "nat \<Rightarrow> nat" where
  "nat_log2 n = (if n < 2 then 0 else Suc (nat_log2 (n div 2)))"

declare nat_log2.simps [simp del]

definition ilog2 :: "u32 \<Rightarrow> rust_panic + nat" where
  "ilog2 n = (if n = 0 then Inl ArithmeticOverflow else Inr (nat_log2 (unat n)))"

definition ks_decrypt :: "crypto_ops \<Rightarrow> keystore_ops \<Rightarrow> string \<Rightarrow> Keystore \<Rightarrow> bytes fallible" where
  "ks_decrypt CR K password ks =
     (if ks_version ks < 4 then fail (UnsupportedVersion (ks_version ks))
      else let c = ks_crypto ks; kp = kdfparams c in
        or_fail Hex (ks_hex_decode K (kdf_salt kp)) (\<lambda>salt.
        or_fail Hex (ks_hex_decode K (ks_nonce (cipherparams c))) (\<lambda>nonce.
          if length nonce \<noteq> 24 then Inl SliceLength
          else or_fail Hex (ks_hex_decode K (ks_ciphertext c)) (\<lambda>ciphertext.
            bindR (ilog2 (kdf_n kp)) (\<lambda>log_n.
              if \<not> scrypt_params_ok K log_n (kdf_r kp) (kdf_p kp) then fail ScryptParams
              else or_fail ScryptOutputLen (scrypt K password salt log_n (kdf_r kp) (kdf_p kp)) (\<lambda>derived_key.
                if ks_hex_encode K (ks_checksum CR derived_key ciphertext) \<noteq> ks_mac c then fail InvalidPassword
                else or_fail AeadError (aead_decrypt K derived_key nonce ciphertext) (\<lambda>sk.
                  if length sk \<noteq> PRIVATE_KEY_SIZE then fail InvalidKeyLength else done_with sk)))))))"

section \<open>Files\<close>

text \<open>
  Files by directory and name, as programs see them.  On the disk a name stands for a numbered file.
  What is written is durable only after a sync: a crash may bring back any version of the
  directories since they were synced, and leaves anything in a file whose contents were not.
\<close>

type_synonym files = "string \<times> string \<rightharpoonup> string"

record disk =
  d_names :: "string \<times> string \<rightharpoonup> nat"
  d_earlier :: "(string \<times> string \<rightharpoonup> nat) list"
  d_contents :: "nat \<Rightarrow> string"
  d_synced :: "nat set"
  d_next :: nat

definition files_of :: "disk \<Rightarrow> files" where
  "files_of d = (\<lambda>p. map_option (d_contents d) (d_names d p))"

definition leaves :: "disk \<Rightarrow> (string \<times> string \<rightharpoonup> nat) \<Rightarrow> files \<Rightarrow> bool" where
  "leaves d names fs \<longleftrightarrow> (\<forall>p. case names p of
       None \<Rightarrow> fs p = None
     | Some i \<Rightarrow> \<exists>txt. fs p = Some txt \<and> (i \<in> d_synced d \<longrightarrow> txt = d_contents d i))"

definition after_crash :: "disk \<Rightarrow> files \<Rightarrow> bool" where
  "after_crash d fs \<longleftrightarrow> (\<exists>names \<in> set (d_names d # d_earlier d). leaves d names fs)"

definition open_new :: "string \<times> string \<Rightarrow> disk \<Rightarrow> disk" where
  "open_new p d = d\<lparr>d_names := (d_names d)(p \<mapsto> d_next d), d_earlier := d_names d # d_earlier d,
     d_contents := (d_contents d)(d_next d := ''''), d_synced := d_synced d - {d_next d}, d_next := Suc (d_next d)\<rparr>"

definition write_file :: "nat \<Rightarrow> string \<Rightarrow> disk \<Rightarrow> disk" where
  "write_file i txt d = d\<lparr>d_contents := (d_contents d)(i := d_contents d i @ txt), d_synced := d_synced d - {i}\<rparr>"

definition sync_file :: "nat \<Rightarrow> disk \<Rightarrow> disk" where
  "sync_file i d = d\<lparr>d_synced := insert i (d_synced d)\<rparr>"

definition rename_file :: "string \<times> string \<Rightarrow> string \<times> string \<Rightarrow> disk \<Rightarrow> disk" where
  "rename_file p q d = d\<lparr>d_names := (d_names d)(p := None, q := d_names d p), d_earlier := d_names d # d_earlier d\<rparr>"

definition sync_dir :: "string \<Rightarrow> disk \<Rightarrow> disk" where
  "sync_dir dir d = d\<lparr>d_earlier := map (\<lambda>names p. if fst p = dir then d_names d p else names p) (d_earlier d)\<rparr>"

lemmas disk_defs = files_of_def open_new_def write_file_def sync_file_def rename_file_def sync_dir_def

text \<open>
  Saving opens a new temporary file, writes it, syncs it, renames it over the target, opens the
  directory and syncs it; \<open>fault k\<close> says that the \<open>k\<close>-th of these system calls fails, \<open>part\<close> how much of
  the text a failing write leaves in the file.  The state in which call \<open>k\<close> fails is also that of a
  process that dies before it.
\<close>

definition save_to_path ::
  "(Keystore \<Rightarrow> string option) \<Rightarrow> string \<Rightarrow> (nat \<Rightarrow> bool) \<Rightarrow> nat \<Rightarrow> Keystore \<Rightarrow> string option \<Rightarrow> string \<Rightarrow> disk \<Rightarrow>
     disk \<times> (KeystoreError + unit)" where
  "save_to_path to_json uuid fault part ks parent name d =
     (case parent of
        None \<Rightarrow> (d, Inl Io)
      | Some dir \<Rightarrow>
          let tmp = (dir, ''.'' @ uuid @ ''.tmp''); i = d_next d in
          (case to_json ks of
             None \<Rightarrow> (d, Inl Serde)
           | Some json \<Rightarrow>
               if fault 0 \<or> d_names d tmp \<noteq> None then (d, Inl Io)
               else let d1 = open_new tmp d in
                 if fault 1 then (write_file i (take part json) d1, Inl Io)
                 else let d2 = write_file i json d1 in
                   if fault 2 then (d2, Inl Io)
                   else let d3 = sync_file i d2 in
                     if fault 3 then (d3, Inl Io)
                     else let d4 = rename_file tmp (dir, name) d3 in
                       if fault 4 \<or> fault 5 then (d4, Inl Io) else (sync_dir dir d4, Inr ())))"

definition from_path :: "(string \<Rightarrow> Keystore option) \<Rightarrow> string \<times> string \<Rightarrow> files \<Rightarrow> KeystoreError + Keystore" where
  "from_path of_json path fs =
     (case fs path of
        None \<Rightarrow> Inl Io
      | Some contents \<Rightarrow> (case of_json contents of None \<Rightarrow> Inl Serde | Some ks \<Rightarrow> Inr ks))"

section \<open>What the primitives promise\<close>

text \<open>
  The documented behaviour of the libraries: hexadecimal decodes what it encoded, the parameters
  of a new file are valid and give a key for every password, and the cipher opens what it sealed
  with the same key and nonce.
\<close>

locale key_sealing =
  fixes CR :: crypto_ops and K :: keystore_ops
  assumes hex_roundtrip: "ks_hex_decode K (ks_hex_encode K bs) = Some bs"
    and params_ok: "scrypt_params_ok K 18 8 1"
    and derives: "\<exists>key. scrypt K password salt 18 8 1 = Some key"
    and seals: "length nonce = 24 \<Longrightarrow> \<exists>c. aead_encrypt K key nonce m = Some c \<and> aead_decrypt K key nonce c = Some m"
    and digest_size: "20 \<le> length (keccak256 CR bs)"
begin

lemma log2_n: "ilog2 262144 = Inr 18"
  by (simp add: ilog2_def nat_log2.simps)

lemma new_opens:
  assumes "length nonce = 24" "length sk = PRIVATE_KEY_SIZE"
  obtains ks where "keystore_new CR K salt nonce ident sk password pk = done_with ks"
    "ks_decrypt CR K password ks = done_with sk" "ks_hex_decode K (ks_public_key ks) = Some pk"
proof -
  obtain key where key: "scrypt K password salt 18 8 1 = Some key"
    using derives by blast
  obtain c where c: "aead_encrypt K key nonce sk = Some c" "aead_decrypt K key nonce c = Some sk"
    using seals [OF assms(1)] by blast
  obtain addr where "public_key_to_address CR pk = Inr addr"
    using digest_size [of pk] by (auto simp: public_key_to_address_def Let_def ADDRESS_SIZE_def)
  with that key c assms show thesis
    by (simp add: keystore_new_def ks_decrypt_def params_ok hex_roundtrip log2_n)
qed

end

section \<open>What the key file guarantees\<close>

text \<open>
  A private key sealed with a password, saved and loaded again opens with that password to
  the same key: the parameters written to the file are those the key was derived with.
\<close>

lemma keystore_saved_opens:
  assumes "key_sealing CR K" "length nonce = 24" "length sk = PRIVATE_KEY_SIZE"
    and json: "\<And>ks. keystore_new CR K salt nonce ident sk password pk = done_with ks \<Longrightarrow>
      \<exists>contents. to_json ks = Some contents \<and> of_json contents = Some ks"
    and fs: "\<And>k. \<not> fault k" "d_names d (dir, ''.'' @ uuid @ ''.tmp'') = None"
  shows "\<exists>ks d'. keystore_new CR K salt nonce ident sk password pk = done_with ks \<and>
    save_to_path to_json uuid fault part ks (Some dir) name d = (d', Inr ()) \<and>
    from_path of_json (dir, name) (files_of d') = Inr ks \<and> ks_decrypt CR K password ks = done_with sk \<and>
    ks_hex_decode K (ks_public_key ks) = Some pk"
proof -
  obtain ks where ks: "keystore_new CR K salt nonce ident sk password pk = done_with ks"
    "ks_decrypt CR K password ks = done_with sk" "ks_hex_decode K (ks_public_key ks) = Some pk"
    using key_sealing.new_opens [OF assms(1-3)] by blast
  obtain contents where "to_json ks = Some contents" "of_json contents = Some ks"
    using json [OF ks(1)] by blast
  with ks fs show ?thesis
    by (simp add: save_to_path_def disk_defs from_path_def Let_def)
qed

text \<open>The libraries of the examples: real hexadecimal text, a toy key derivation and cipher.\<close>

definition sample_sealing :: keystore_ops where
  "sample_sealing = \<lparr>ks_hex_encode = hex_text, ks_hex_decode = hex_read, scrypt_params_ok = (\<lambda>_ _ _. True),
     scrypt = (\<lambda>password salt _ _ _. Some (take 32 (map of_char password @ salt @ replicate 32 0))),
     aead_encrypt = (\<lambda>key nonce m. Some (m @ nonce)), aead_decrypt = (\<lambda>key nonce c. Some (take (length c - 24) c))\<rparr>"

definition sample_hash_ops :: crypto_ops where
  "sample_hash_ops = \<lparr>sha256 = (\<lambda>bs. take 32 (bs @ replicate 32 0)), keccak256 = (\<lambda>bs. take 32 (bs @ replicate 32 0)),
     dil_pk_ok = (\<lambda>_. True), dil_sk_ok = (\<lambda>_. True), dil_sig_ok = (\<lambda>_. True), dil_sign = (\<lambda>_ m. m), dil_verify = (\<lambda>_ m s. m = s),
     vrf_pk_ok = (\<lambda>_. True), vrf_out_ok = (\<lambda>_. True), vrf_proof_ok = (\<lambda>_. True), vrf_sign = (\<lambda>_ _ m. (m, m)),
     vrf_verify = (\<lambda>_ _ m out _. m = out)\<rparr>"

interpretation sample_seal: key_sealing sample_hash_ops sample_sealing
  by unfold_locales (simp_all add: sample_sealing_def sample_hash_ops_def)

definition sample_keystore :: "Keystore" where
  "sample_keystore = (case keystore_new sample_hash_ops sample_sealing (replicate 32 1) (replicate 24 2) ''id''
     (replicate PRIVATE_KEY_SIZE 5) ''secret'' (replicate PUBLIC_KEY_SIZE 3) of Inr (Inr ks) \<Rightarrow> ks)"

text \<open>A disk on which everything is synced, and what a crash leaves of its files while others are written.\<close>

definition settled :: "disk \<Rightarrow> bool" where
  "settled d \<longleftrightarrow> d_earlier d = [] \<and> (\<forall>p i. d_names d p = Some i \<longrightarrow> i \<in> d_synced d \<and> i < d_next d)"

lemma leaves_new:
  assumes "leaves d names fs"
  shows "names p = None \<Longrightarrow> fs p = None" "names p = Some i \<Longrightarrow> i \<in> d_synced d \<Longrightarrow> fs p = Some (d_contents d i)"
  using assms [unfolded leaves_def, rule_format, of p] by auto

lemma leaves_old:
  assumes "settled d" "\<forall>i < d_next d. d_contents d' i = d_contents d i \<and> (i \<in> d_synced d \<longrightarrow> i \<in> d_synced d')"
    and "leaves d' names fs" "names p = d_names d p"
  shows "fs p = files_of d p"
proof (cases "d_names d p")
  case None
  with leaves_new(1) [OF assms(3)] assms(4) show ?thesis
    by (simp add: files_of_def)
next
  case (Some i)
  then have "i \<in> d_synced d" "i < d_next d"
    using assms(1) unfolding settled_def by blast+
  with leaves_new(2) [OF assms(3)] assms(2,4) Some show ?thesis
    by (simp add: files_of_def)
qed

text \<open>
  The versions of the directories: before the save, with the temporary file, and with the file
  replaced.  In the last one the text is durable, and after a success it is the only one.
\<close>

lemma save_versions:
  assumes "settled d" "save_to_path to_json uuid fault part ks (Some dir) name d = (d', r)"
    and tmp: "tmp = (dir, ''.'' @ uuid @ ''.tmp'')" "name \<noteq> ''.'' @ uuid @ ''.tmp''"
    and names: "names \<in> set (d_names d' # d_earlier d')"
  obtains (before) "names = d_names d" "r \<noteq> Inr ()" | (written) "names = (d_names d)(tmp \<mapsto> d_next d)" "r \<noteq> Inr ()"
  | (replaced) json where "names = (d_names d)(tmp := None, (dir, name) \<mapsto> d_next d)" "to_json ks = Some json"
      "d_next d \<in> d_synced d'" "d_contents d' (d_next d) = json"
proof (cases "to_json ks = None \<or> fault 0 \<or> d_names d tmp \<noteq> None")
  case True
  with assms(2) have "d' = d" "r \<noteq> Inr ()"
    by (auto simp: save_to_path_def Let_def tmp(1) split: option.splits if_splits)
  with assms(1) names before show thesis
    by (simp add: settled_def)
next
  case False
  then obtain json where json: "to_json ks = Some json" "\<not> fault 0" "d_names d tmp = None"
    by auto
  note save = assms(2) [unfolded save_to_path_def Let_def option.case json(1) tmp(1) [symmetric]]
  have e: "d_earlier d = []"
    using assms(1) by (simp add: settled_def)
  show thesis
  proof (cases "fault 1 \<or> fault 2 \<or> fault 3")
    case True
    with save json e have "d_names d' = (d_names d)(tmp \<mapsto> d_next d)" "d_earlier d' = [d_names d]" "r \<noteq> Inr ()"
      by (simp_all add: disk_defs split: if_splits) auto
    with names before written show thesis
      by auto
  next
    case False
    let ?N = "(d_names d)(tmp := None, (dir, name) \<mapsto> d_next d)"
    from False save json e have d': "d_names d' = ?N" "d_next d \<in> d_synced d'" "d_contents d' (d_next d) = json"
      by (auto simp: disk_defs split: if_splits)
    have dir: "(\<lambda>p. if fst p = dir then ?N p else ((d_names d)(tmp \<mapsto> d_next d)) p) = ?N"
      "(\<lambda>p. if fst p = dir then ?N p else d_names d p) = ?N"
      by (auto simp: fun_eq_iff tmp(1))
    from False save json e have "if fault 4 \<or> fault 5 then r \<noteq> Inr () \<and> d_earlier d' = [(d_names d)(tmp \<mapsto> d_next d), d_names d]
      else d_earlier d' = [?N, ?N]"
      using dir by (auto simp: disk_defs cong: if_cong split: if_splits)
    with d' names json(1) before written replaced show thesis
      by (auto split: if_splits)
  qed
qed

lemma save_frame:
  assumes "save_to_path to_json uuid fault part ks (Some dir) name d = (d', r)"
  shows "\<forall>i < d_next d. d_contents d' i = d_contents d i \<and> (i \<in> d_synced d \<longrightarrow> i \<in> d_synced d')"
  using assms by (auto simp: save_to_path_def disk_defs Let_def split: option.splits if_splits)

text \<open>
  C33: Saving replaces the key file atomically, on a disk where all else is synced.  Whichever system
  call fails, and whatever a crash then leaves, the file holds its old contents or the complete
  new text, never a part of it, and no file but it and the temporary one changes; after a
  save that reports success it holds the new text and the temporary file is gone, whatever a later crash
  leaves.
\<close>

theorem keystore_save_atomic:
  assumes "settled d" "save_to_path to_json uuid fault part ks (Some dir) name d = (d', r)" "name \<noteq> ''.'' @ uuid @ ''.tmp''"
    and "after_crash d' fs"
  shows "(fs (dir, name) = files_of d (dir, name) \<or> to_json ks \<noteq> None \<and> fs (dir, name) = to_json ks) \<and>
    (\<forall>p. p \<noteq> (dir, name) \<and> p \<noteq> (dir, ''.'' @ uuid @ ''.tmp'') \<longrightarrow> fs p = files_of d p) \<and>
    (r = Inr () \<longrightarrow> fs (dir, name) = to_json ks \<and> to_json ks \<noteq> None \<and> fs (dir, ''.'' @ uuid @ ''.tmp'') = None)"
proof -
  obtain names where names: "names \<in> set (d_names d' # d_earlier d')" "leaves d' names fs"
    using assms(4) by (auto simp: after_crash_def)
  note old = leaves_old [OF assms(1) save_frame [OF assms(2)] names(2)]
  from assms(1,2) refl assms(3) names(1) show ?thesis
  proof (cases rule: save_versions)
    case (replaced json)
    with leaves_new [OF names(2)] old assms(3) show ?thesis
      by simp
  qed (use old assms(3) in auto)
qed

text \<open>
  The disk of the example holds a key file.  The rename is done and the sync of the directory fails:
  after a crash the key file is the old or the new one.
\<close>

definition sample_disk :: disk where
  "sample_disk = \<lparr>d_names = [(''keys'', ''v1'') \<mapsto> 0], d_earlier = [], d_contents = (\<lambda>_. ''old''), d_synced = {0}, d_next = 1\<rparr>"

theorem keystore_save_atomic_witness:
  "\<exists>d'. save_to_path (\<lambda>_. Some ''new'') ''u'' (\<lambda>k. k = 5) 0 sample_keystore (Some ''keys'') ''v1'' sample_disk = (d', Inl Io) \<and>
     (\<forall>fs. after_crash d' fs \<longrightarrow> fs (''keys'', ''v1'') \<in> {Some ''old'', Some ''new''})"
proof -
  obtain d' where d': "save_to_path (\<lambda>_. Some ''new'') ''u'' (\<lambda>k. k = 5) 0 sample_keystore (Some ''keys'') ''v1'' sample_disk = (d', Inl Io)"
    by (simp add: save_to_path_def sample_disk_def Let_def)
  have "settled sample_disk" "files_of sample_disk (''keys'', ''v1'') = Some ''old''"
    by (simp_all add: settled_def sample_disk_def files_of_def)
  with keystore_save_atomic [OF _ d'] d' show ?thesis
    by fastforce
qed

text \<open>
  A key file whose nonce is not 24 bytes long, or whose scrypt cost is zero, makes opening it
  panic, whatever the password, instead of returning an error.
\<close>

lemma malformed_keystore_panics:
  assumes "4 \<le> ks_version ks" "ks_hex_decode K (kdf_salt (kdfparams (ks_crypto ks))) = Some salt"
    and "ks_hex_decode K (ks_nonce (cipherparams (ks_crypto ks))) = Some nonce"
    and "length nonce \<noteq> 24 \<or> kdf_n (kdfparams (ks_crypto ks)) = 0 \<and> ks_hex_decode K (ks_ciphertext (ks_crypto ks)) \<noteq> None"
  shows "\<exists>e. ks_decrypt CR K password ks = Inl e"
  using assms by (cases "length nonce = 24") (auto simp: ks_decrypt_def Let_def ilog2_def not_less [symmetric])

end
