(* ===== verification/Node_Start.thy ===== *)
theory Node_Start
  imports Consensus_Rounds Keystore
begin

text \<open>
  The start of a node (\<^verbatim>\<open>main\<close> of \<^verbatim>\<open>zkapp/node/src/main.rs\<close>): the genesis that \<^verbatim>\<open>--bootstrap\<close> writes, the
  network key file, the keys of an authority and the address book of the consensus engine.
\<close>

section \<open>The bootstrap genesis\<close>

definition NUM_VALIDATORS :: nat where "NUM_VALIDATORS = 7"

text \<open>The generated keys of one validator: signing keys, VRF public key and network identity.\<close>

record boot_keys =
  bk_signing :: KeyPair
  bk_vrf_public :: bytes
  bk_peer :: PeerId

definition bootstrap_account :: "(bytes \<Rightarrow> string) \<Rightarrow> nat \<Rightarrow> boot_keys \<Rightarrow> rust_panic + string \<times> GenesisAccount" where
  "bootstrap_account hexe i k =
     bindR (public_key_bytes (bk_signing k)) (\<lambda>pk.
       let address_hex = hexe pk;
           multiaddr = ''/ip4/127.0.0.1/tcp/'' @ show_nat (50000 + i) @ ''/p2p/'' @ bk_peer k
       in Inr (address_hex, \<lparr>ga_public_key = address_hex, ga_vrf_public_key = Some (hexe (bk_vrf_public k)),
                             network_identity = Some multiaddr\<rparr>))"

fun bootstrap_accounts ::
  "(bytes \<Rightarrow> string) \<Rightarrow> nat \<Rightarrow> boot_keys list \<Rightarrow> (string \<times> GenesisAccount) list \<Rightarrow> rust_panic + (string \<times> GenesisAccount) list" where
  "bootstrap_accounts hexe i [] accs = Inr accs"
| "bootstrap_accounts hexe i (k # ks) accs =
     bindR (bootstrap_account hexe i k) (\<lambda>(a, acc). bootstrap_accounts hexe (Suc i) ks (AList.update a acc accs))"

definition bootstrap_genesis :: "(bytes \<Rightarrow> string) \<Rightarrow> u64 \<Rightarrow> boot_keys list \<Rightarrow> rust_panic + Genesis" where
  "bootstrap_genesis hexe now keys =
     bindR (bootstrap_accounts hexe 0 (take NUM_VALIDATORS keys) []) (\<lambda>accs.
       Inr \<lparr>genesis_time = now, g_chain_id = ''evice-blockchain-v1'',
            parameters = \<lparr>sub_committee_size = 6, proposer_timeout_ms = 1200\<rparr>, accounts = accs\<rparr>)"

section \<open>The network key\<close>

text \<open>
  The key file, \<open>None\<close> when it does not exist.  A corrupt file is moved away, whether or not that
  works, and replaced by a new key; the identity printed by \<^verbatim>\<open>--get-peer-id\<close> refuses it instead.
\<close>

datatype key_error = ReadError | CorruptError | DirError | WriteError

record 'k p2p_key_ops =
  sk_of_bytes :: "bytes \<Rightarrow> 'k option"
  sk_as_bytes :: "'k \<Rightarrow> bytes"

record key_faults =
  read_fails :: bool
  mkdir_fails :: bool
  rename_fails :: bool
  write_fails :: bool

definition write_key :: "'k p2p_key_ops \<Rightarrow> key_faults \<Rightarrow> 'k \<Rightarrow> bytes option \<Rightarrow> bytes option \<times> (key_error + 'k)" where
  "write_key P F new f = (if write_fails F then (f, Inl WriteError) else (Some (sk_as_bytes P new), Inr new))"

definition load_p2p_keypair ::
  "'k p2p_key_ops \<Rightarrow> key_faults \<Rightarrow> 'k \<Rightarrow> bytes option \<Rightarrow> bytes option \<times> (key_error + 'k)" where
  "load_p2p_keypair P F new f =
     (case f of
        Some bs \<Rightarrow>
          if read_fails F then (f, Inl ReadError)
          else (case sk_of_bytes P bs of
             Some k \<Rightarrow> (f, Inr k)
           | None \<Rightarrow> write_key P F new (if rename_fails F then f else None))
      | None \<Rightarrow> if mkdir_fails F then (None, Inl DirError) else write_key P F new None)"

definition get_peer_id_key ::
  "'k p2p_key_ops \<Rightarrow> key_faults \<Rightarrow> 'k \<Rightarrow> bytes option \<Rightarrow> bytes option \<times> (key_error + 'k)" where
  "get_peer_id_key P F new f =
     (case f of
        Some bs \<Rightarrow>
          if read_fails F then (f, Inl ReadError)
          else (case sk_of_bytes P bs of Some k \<Rightarrow> (f, Inr k) | None \<Rightarrow> (f, Inl CorruptError))
      | None \<Rightarrow> if mkdir_fails F then (None, Inl DirError) else write_key P F new None)"

section \<open>The keys of an authority\<close>

datatype start_error = KeystoreFailed KeystoreError | PasswordFailed | HexFailed | KeyFailed string | VrfFailed

record authority_args =
  is_authority :: bool
  keystore_path :: "(string \<times> string) option"
  vrf_priv_key :: "string option"
  arg_password :: "string option"

definition authority_keys ::
  "crypto_ops \<Rightarrow> keystore_ops \<Rightarrow> (bytes \<Rightarrow> bool) \<Rightarrow> (string \<Rightarrow> Keystore option) \<Rightarrow> string option \<Rightarrow> authority_args \<Rightarrow> files \<Rightarrow>
     rust_panic + start_error + ValidatorKeys option" where
  "authority_keys CR K vrf_sk_ok of_json typed args fs =
     (if \<not> is_authority args then Inr (Inr None)
      else case keystore_path args of
        None \<Rightarrow> Inl (ExpectFailed ''Node authority harus dijalankan dengan --keystore-path'')
      | Some path \<Rightarrow>
          (case vrf_priv_key args of
             None \<Rightarrow> Inl (ExpectFailed ''Node authority harus dijalankan dengan --vrf-private-key'')
           | Some vrf_hex \<Rightarrow>
               (case from_path of_json path fs of
                  Inl e \<Rightarrow> Inr (Inl (KeystoreFailed e))
                | Inr ks \<Rightarrow>
                    (case (case arg_password args of Some p \<Rightarrow> Some p | None \<Rightarrow> typed) of
                       None \<Rightarrow> Inr (Inl PasswordFailed)
                     | Some password \<Rightarrow>
                         (case ks_decrypt CR K password ks of
                            Inl e \<Rightarrow> Inl e
                          | Inr (Inl e) \<Rightarrow> Inr (Inl (KeystoreFailed e))
                          | Inr (Inr sk) \<Rightarrow>
                              (case ks_hex_decode K (ks_public_key ks) of
                                 None \<Rightarrow> Inr (Inl HexFailed)
                               | Some pk \<Rightarrow>
                                   (case from_key_bytes CR pk sk of
                                      Inl e \<Rightarrow> Inr (Inl (KeyFailed e))
                                    | Inr kp \<Rightarrow>
                                        bindR (public_key_bytes kp) (\<lambda>pkb.
                                        bindR (public_key_to_address CR pkb) (\<lambda>_.
                                          case ks_hex_decode K vrf_hex of
                                            None \<Rightarrow> Inr (Inl HexFailed)
                                          | Some vsk \<Rightarrow>
                                              if vrf_sk_ok vsk then Inr (Inr (Some \<lparr>signing_keys = kp, vrf_secret = vsk\<rparr>))
                                              else Inr (Inl VrfFailed)))))))))) "

text \<open>The consensus engine of an authority.\<close>

definition start_engine :: "crypto_ops \<Rightarrow> Genesis \<Rightarrow> AddressBook \<Rightarrow> ValidatorKeys \<Rightarrow> rust_panic + ConsensusEngine" where
  "start_engine CR g ab keys =
     bindR (public_key_bytes (signing_keys keys)) (\<lambda>pk.
     bindR (public_key_to_address CR pk) (\<lambda>addr.
       Inr \<lparr>my_address = addr, validator_keys = keys, address_book = ab, chain_id = g_chain_id g, genesis_params = parameters g\<rparr>))"

section \<open>A bootstrapped network\<close>

lemma bootstrap_accounts_keys:
  assumes "bootstrap_accounts hexe i ks accs = Inr accs'" "\<forall>(a, acc) \<in> set accs. \<exists>pk. a = hexe pk \<and> length pk = PUBLIC_KEY_SIZE"
  shows "\<forall>(a, acc) \<in> set accs'. \<exists>pk. a = hexe pk \<and> length pk = PUBLIC_KEY_SIZE"
  using assms
proof (induction hexe i ks accs rule: bootstrap_accounts.induct)
  case (2 hexe i k ks accs)
  then obtain a acc where acc: "bootstrap_account hexe i k = Inr (a, acc)"
    "bootstrap_accounts hexe (Suc i) ks (AList.update a acc accs) = Inr accs'"
    by (auto simp: panic_simps)
  then have "\<exists>pk. a = hexe pk \<and> length pk = PUBLIC_KEY_SIZE"
    by (auto simp: bootstrap_account_def panic_simps public_key_bytes_def Let_def split: if_splits)
  moreover have "set (AList.update a acc accs) \<subseteq> insert (a, acc) (set accs)"
    by (induction accs) auto
  ultimately have "\<forall>(a', acc') \<in> set (AList.update a acc accs). \<exists>pk. a' = hexe pk \<and> length pk = PUBLIC_KEY_SIZE"
    using "2.prems"(2) by auto
  with "2.IH" acc show ?case
    by auto
qed simp

text \<open>
  What a node with an empty address book ever does: it asks for penalties for the certificates it
  receives.
\<close>

fun idle_task :: "task \<Rightarrow> bool" where
  "idle_task (HandleMessage _ _ _) = True"
| "idle_task (CacheMessage _ _ _) = True"
| "idle_task (CheckProposal _) = True"
| "idle_task (CheckVote _) = True"
| "idle_task (VerifyVote _) = True"
| "idle_task (VerifyQc _ _ _) = True"
| "idle_task (DriverTick _ _) = True"
| "idle_task (DriverApply _ _ _ _) = True"
| "idle_task (RoundStep _ _ _) = True"
| "idle_task (ElectProposer _ _ _ _) = True"
| "idle_task _ = False"

definition idle_state :: "'c CoreState \<Rightarrow> bool" where
  "idle_state n \<longleftrightarrow> optimistically_confirmed_batches n = [] \<and> (\<forall>cmd \<in> set (p2p_out n). \<exists>peer. cmd = ApplyPenalty peer (- 50))"

lemma empty_book_rejects:
  "\<not> verify_batch_signature CR [] header" "\<not> verify_vote_signature CR [] a r h sig" "\<not> qc_valid CR [] qc"
proof -
  show votes: "\<not> verify_vote_signature CR [] a r h sig" for a r h sig
    by (simp add: verify_vote_signature_def book_key_def)
  then show "\<not> qc_valid CR [] qc"
    using count_valid_filter [of CR "[]" "view_number qc" "qc_batch_hash qc" "{}" "qc_signatures qc"]
    by (simp add: qc_valid_def required_quorum_def)
qed (simp add: verify_batch_signature_def)

lemma empty_book_idle:
  assumes "address_book E = []"
  shows "task_invariant X E idle_state idle_task"
proof
  fix n t n' new
  assume "idle_state n" "idle_task t" "task_step X E t n = (n', new)"
  then show "idle_state n' \<and> (\<forall>t' \<in> set new. idle_task t')"
    by (cases t) (auto simp: assms empty_book_rejects idle_state_def dispatch_def p2p_send_def panic_def determine_sub_committee_def Let_def
        split: if_splits ConsensusMessage.splits sum.splits option.splits)
qed simp_all

text \<open>
  C30: The network that \<^verbatim>\<open>--bootstrap\<close> sets up never confirms anything: its genesis lists the
  validators under the hexadecimal form of their public keys, of which the address book takes
  none, so in every reachable state of every node no batch is confirmed and nothing but requests
  for penalties is ever sent.
\<close>

theorem bootstrap_network_stalls:
  assumes hex: "\<And>bs. hex_decode T (hexe bs) = Some bs" "\<And>bs. trim_0x (hexe bs) = hexe bs"
    and genesis: "bootstrap_genesis hexe now keys = Inr g" "update_from_genesis prof T g [] = Inr ab"
    and engine: "start_engine CR g ab vkeys = Inr E"
    and run: "consensus_run X E (consensus_state_new L t qc pool, []) (n, ts)"
  shows "ab = [] \<and> optimistically_confirmed_batches n = [] \<and>
    (\<forall>cmd \<in> set (p2p_out n). \<exists>peer. cmd = ApplyPenalty peer (- 50))"
proof -
  have "\<forall>(a, acc) \<in> set (accounts g). \<exists>pk. a = hexe pk \<and> length pk = PUBLIC_KEY_SIZE"
    using genesis(1) bootstrap_accounts_keys [of hexe 0 "take NUM_VALIDATORS keys" "[]" "accounts g"]
    by (auto simp: bootstrap_genesis_def panic_simps)
  then have "\<forall>(a, acc) \<in> set (accounts g). \<forall>bs. hex_decode T (trim_0x a) = Some bs \<longrightarrow> length bs \<noteq> 20"
    using hex by (fastforce simp: PUBLIC_KEY_SIZE_def)
  from genesis_without_addresses [OF this] genesis(2) have ab: "ab = []"
    by simp
  with engine have "address_book E = []"
    by (auto simp: start_engine_def panic_simps)
  then have "idle_state n"
    using task_invariant.run_keeps [OF empty_book_idle run]
    by (simp add: idle_state_def consensus_state_new_def)
  with ab show ?thesis
    by (simp add: idle_state_def)
qed

text \<open>The text operations of the example: real hexadecimal, any multiaddress.\<close>

definition hex_texts :: text_ops where
  "hex_texts = \<lparr>hex_decode = hex_read, parse_multiaddr = Some, p2p_component = Some\<rparr>"

lemma hex_digit_not_x: "d < 16 \<Longrightarrow> hex_digit d \<noteq> CHR ''x''"
  using hex_value_digit [of d] by (auto simp: hex_value_def Let_def)

lemma trim_hex_text [simp]: "trim_0x (hex_text bs) = hex_text bs"
proof (cases bs)
  case (Cons b bs')
  have "hex_digit (unat b mod 16) \<noteq> CHR ''x''"
    by (intro hex_digit_not_x) simp
  with Cons show ?thesis
    by (simp add: hex_text_def)
qed (simp add: hex_text_def)

lemma update_accounts_release: "\<exists>ab'. update_accounts Release T accs ab = Inr ab'"
proof (induction accs arbitrary: ab)
  case (Cons a accs)
  then show ?case
    by (cases a) (simp add: upsert_identity_def add_u64_release split: option.split)
qed simp

definition boot_sample :: boot_keys where
  "boot_sample = \<lparr>bk_signing = \<lparr>public_key = sample_pk 1, private_key = []\<rparr>, bk_vrf_public = [1], bk_peer = ''p''\<rparr>"

theorem bootstrap_network_stalls_witness:
  "\<exists>g ab E. bootstrap_genesis hex_text 0 [boot_sample] = Inr g \<and> update_from_genesis Release hex_texts g [] = Inr ab \<and>
     start_engine sample_crypto g ab (validator_keys (sample_engine 1)) = Inr E \<and>
     optimistically_confirmed_batches (exec_tasks (sample_externals Release) E (receive_all sample_messages) sample_start) = []"
proof -
  obtain g where g: "bootstrap_genesis hex_text 0 [boot_sample] = Inr g"
    by (simp add: bootstrap_genesis_def NUM_VALIDATORS_def bootstrap_account_def public_key_bytes_def boot_sample_def Let_def)
  have T: "hex_decode hex_texts (hex_text bs) = Some bs" for bs
    by (simp add: hex_texts_def)
  obtain ab where ab: "update_from_genesis Release hex_texts g [] = Inr ab"
    unfolding update_from_genesis_def using update_accounts_release by blast
  obtain E where E: "start_engine sample_crypto g ab (validator_keys (sample_engine 1)) = Inr E"
    by (simp add: start_engine_def public_key_bytes_def public_key_to_address_def sample_crypto_def ADDRESS_SIZE_def Let_def)
  from bootstrap_network_stalls [OF T trim_hex_text g ab E messages_run
      [of "sample_externals Release" E sample_start sample_messages, unfolded sample_start_def]] g ab E
  show ?thesis
    unfolding sample_start_def by blast
qed

section \<open>Keys that survive a restart\<close>

lemma p2p_keypair_stable:
  assumes "load_p2p_keypair P F new f = (f', Inr k)" "\<And>k. sk_of_bytes P (sk_as_bytes P k) = Some k" "\<not> read_fails F'"
  shows "load_p2p_keypair P F' new' f' = (f', Inr k)" "get_peer_id_key P F' new' f' = (f', Inr k)"
  using assms by (auto simp: load_p2p_keypair_def get_peer_id_key_def write_key_def split: option.splits if_splits)

text \<open>
  C32: The keys of an authority survive a restart: a signing key sealed in a key file and saved is,
  on a later start with the same password and a valid VRF secret, the key the node signs with, and
  its address is that of its public key.
\<close>

theorem authority_keys_roundtrip:
  assumes "key_sealing CR K" "length nonce = 24" "length sk = PRIVATE_KEY_SIZE" "length pk = PUBLIC_KEY_SIZE"
    and json: "\<And>ks. keystore_new CR K salt nonce ident sk password pk = done_with ks \<Longrightarrow>
      \<exists>contents. to_json ks = Some contents \<and> of_json contents = Some ks"
    and disk: "\<And>k. \<not> fault k" "d_names d (dir, ''.'' @ uuid @ ''.tmp'') = None"
    and keys: "dil_pk_ok CR pk" "dil_sk_ok CR sk" "ks_hex_decode K vrf_hex = Some vsk" "vrf_sk_ok vsk"
  shows "\<exists>ks d' vkeys. keystore_new CR K salt nonce ident sk password pk = done_with ks \<and>
    save_to_path to_json uuid fault part ks (Some dir) name d = (d', Inr ()) \<and>
    authority_keys CR K vrf_sk_ok of_json typed \<lparr>is_authority = True, keystore_path = Some (dir, name),
       vrf_priv_key = Some vrf_hex, arg_password = Some password\<rparr> (files_of d') = Inr (Inr (Some vkeys)) \<and>
    public_key (signing_keys vkeys) = pk \<and> private_key (signing_keys vkeys) = sk \<and> vrf_secret vkeys = vsk"
proof -
  obtain ks d' where ks: "keystore_new CR K salt nonce ident sk password pk = done_with ks"
    "save_to_path to_json uuid fault part ks (Some dir) name d = (d', Inr ())"
    "from_path of_json (dir, name) (files_of d') = Inr ks" "ks_decrypt CR K password ks = done_with sk"
    "ks_hex_decode K (ks_public_key ks) = Some pk"
    using keystore_saved_opens [of CR K nonce sk salt ident password pk to_json of_json fault d dir uuid part name] assms(1-3) json disk
    by blast
  moreover obtain addr where "public_key_to_address CR pk = Inr addr"
    using key_sealing.digest_size [OF assms(1), of pk] by (auto simp: public_key_to_address_def Let_def ADDRESS_SIZE_def)
  ultimately show ?thesis
    using assms(4) keys by (simp add: authority_keys_def from_key_bytes_def public_key_bytes_def)
qed

theorem authority_keys_roundtrip_witness:
  "\<exists>d' vkeys. save_to_path (\<lambda>_. Some ''file'') ''u'' (\<lambda>_. False) 0 sample_keystore (Some ''keys'') ''v1'' sample_disk = (d', Inr ()) \<and>
     authority_keys sample_hash_ops sample_sealing (\<lambda>_. True) (\<lambda>_. Some sample_keystore) None
       \<lparr>is_authority = True, keystore_path = Some (''keys'', ''v1''), vrf_priv_key = Some ''ab'', arg_password = Some ''secret''\<rparr> (files_of d') =
       Inr (Inr (Some vkeys)) \<and>
     private_key (signing_keys vkeys) = replicate PRIVATE_KEY_SIZE 5"
proof -
  have "ks_hex_decode sample_sealing ''ab'' = Some [0xab]" "dil_pk_ok sample_hash_ops pk" "dil_sk_ok sample_hash_ops sk" for pk sk
    by (simp_all add: sample_sealing_def sample_hash_ops_def hex_value_def Let_def of_char_def)
  then show ?thesis
    using authority_keys_roundtrip [OF sample_seal.key_sealing_axioms, of "replicate 24 2" "replicate PRIVATE_KEY_SIZE 5"
        "replicate PUBLIC_KEY_SIZE 3" "replicate 32 1" "''id''" "''secret''" "\<lambda>_. Some ''file''" "\<lambda>_. Some sample_keystore" "\<lambda>_. False"
        sample_disk "''keys''" "''u''" "''ab''" "[0xab]" "\<lambda>_. True" 0 "''v1''" None]
    by (auto simp: sample_keystore_def sample_disk_def)
qed

end
