(* ===== verification/Swarm.thy ===== *)
theory Swarm
  imports Consensus_Rounds Texts
begin

text \<open>
  The network task (\<^verbatim>\<open>evice-multi-sequencer/src/p2p/swarm.rs\<close>): one round of its \<^verbatim>\<open>select!\<close> loop per event,
  with the state it keeps, the requests it makes of libp2p and the messages it passes to the
  consensus engine.  A task the loop spawns for a message is run with the event that spawns it.
  What libp2p knows (the connected peers) comes with the events that ask for it; parsing of
  addresses and serialization are arguments.
\<close>

section \<open>State, events and effects\<close>

record swarm_ops =
  sw_loopback_ip :: "Multiaddr \<Rightarrow> bool"
  sw_last_p2p :: "Multiaddr \<Rightarrow> PeerId option"
  sw_with_p2p :: "PeerId \<Rightarrow> Multiaddr \<Rightarrow> Multiaddr"
  sw_addr_text :: "Multiaddr \<Rightarrow> string"
  sw_parse_addr :: "string \<Rightarrow> Multiaddr option"
  sw_encode_chain :: "ChainMessage \<Rightarrow> bytes option"
  sw_decode_chain :: "bytes \<Rightarrow> ChainMessage option"
  sw_decode_request :: "bytes \<Rightarrow> SyncRequest option"

text \<open>The settings of a run; log messages are formatted when their level is on.\<close>

record swarm_env =
  se_local :: PeerId
  se_dev :: bool
  se_bootstrap :: bool
  se_threshold :: nat
  se_warn :: bool
  se_info :: bool
  se_debug :: bool
  se_profile :: build_profile

record SwarmState =
  peer_scores :: "PeerId \<rightharpoonup> PeerInfo"
  known_peers :: "(PeerId \<times> Multiaddr) list"
  pending_dials :: "PeerId set"
  stable_since :: "nat option"
  network_ready :: bool
  initial_discovery_triggered :: bool

definition swarm_start :: SwarmState where
  "swarm_start = \<lparr>peer_scores = Map.empty, known_peers = [], pending_dials = {}, stable_since = None,
     network_ready = False, initial_discovery_triggered = False\<rparr>"

datatype swarm_event =
    StabilityTick nat nat
  | CommandReceived P2pCommand nat "PeerId \<Rightarrow> bool" bool "PeerId list"
  | ResponseReady nat SyncResponse
  | KadClosestPeers "PeerId list" "PeerId \<Rightarrow> bool"
  | IdentifyReceived PeerId "Multiaddr list"
  | ConnectionEstablished PeerId Multiaddr nat
  | ConnectionClosed PeerId
  | NewListenAddr Multiaddr
  | GossipMessage PeerId bool bytes nat
  | SyncRequestReceived PeerId SyncRequest nat
  | SyncResponseReceived PeerId SyncResponse
  | OtherEvent

datatype swarm_effect =
    Publish bytes
  | SendRequest PeerId SyncRequest
  | SendResponse nat SyncResponse
  | Dial Multiaddr
  | DialPeer PeerId
  | KadAddAddress PeerId Multiaddr
  | KadGetClosestPeers PeerId
  | AddExplicitPeer PeerId
  | ReportAccept PeerId
  | ToConsensus ConsensusMessage PeerId
  | ToSelf P2pCommand
  | ConnectedPeers "PeerId list"

definition is_loopback :: "swarm_ops \<Rightarrow> swarm_env \<Rightarrow> Multiaddr \<Rightarrow> bool" where
  "is_loopback W V addr = (if se_dev V then False else sw_loopback_ip W addr)"

text \<open>
  What the task does before its loop, in order: the two topics, the bootstrap nodes whose address can
  be read, the first Kademlia query and the two sockets.  Subscribing and listening end the task when
  they fail; failed dials and a failed query are only logged.
\<close>

datatype setup_action =
    Subscribe string
  | DialBootstrap Multiaddr
  | KadBootstrap
  | ListenOn string

definition setup_actions :: "swarm_ops \<Rightarrow> string list \<Rightarrow> 16 word \<Rightarrow> setup_action list" where
  "setup_actions W bootstrap_nodes port =
     [Subscribe ''evice-sequencer-topic'', Subscribe ''evice-sequencer-fallback-topic''] @
     map DialBootstrap (List.map_filter (sw_parse_addr W) bootstrap_nodes) @
     [KadBootstrap, ListenOn (''/ip4/0.0.0.0/tcp/'' @ show_nat (unat port)),
      ListenOn (''/ip4/0.0.0.0/udp/'' @ show_nat (unat port) @ ''/quic-v1'')]"

fun ends_task :: "setup_action \<Rightarrow> bool" where
  "ends_task (Subscribe _) = True"
| "ends_task (ListenOn _) = True"
| "ends_task _ = False"

fun swarm_setup :: "(setup_action \<Rightarrow> bool) \<Rightarrow> setup_action list \<Rightarrow> setup_action list \<times> bool" where
  "swarm_setup works [] = ([], True)"
| "swarm_setup works (a # as) =
     (if ends_task a \<and> \<not> works a then ([a], False) else let (done', ok) = swarm_setup works as in (a # done', ok))"

text \<open>The loop is reached exactly when both topics and both sockets work; then everything was tried.\<close>

lemma swarm_setup_reaches:
  "snd (swarm_setup works as) \<longleftrightarrow> (\<forall>a \<in> set as. ends_task a \<longrightarrow> works a)"
  "snd (swarm_setup works as) \<Longrightarrow> fst (swarm_setup works as) = as"
  by (induction as) (auto simp: Let_def split: prod.splits)

definition required_peer_threshold :: "AddressBook \<Rightarrow> nat" where
  "required_peer_threshold ab =
     (let n = length (get_all_peer_ids ab) in if n > 0 then max (n * 2 div 3) 1 else 1)"

section \<open>Handlers\<close>

definition stability_tick :: "swarm_env \<Rightarrow> nat \<Rightarrow> nat \<Rightarrow> SwarmState \<Rightarrow> SwarmState" where
  "stability_tick V now peers s =
     (if peers \<ge> se_threshold V then
        let since = (case stable_since s of None \<Rightarrow> now | Some t \<Rightarrow> t);
            s1 = s\<lparr>stable_since := Some since\<rparr>
        in if now - since \<ge> 1000 * NETWORK_STABILITY_WINDOW then s1\<lparr>network_ready := True\<rparr> else s1
      else s\<lparr>stable_since := None, network_ready := False\<rparr>)"

text \<open>A log message with the first four bytes of a hash, in the network task itself.\<close>

definition logs_short :: "bool \<Rightarrow> bytes \<Rightarrow> bool" where
  "logs_short on h \<longleftrightarrow> on \<and> length h < 4"

fun handle_p2p_command ::
  "swarm_ops \<Rightarrow> swarm_env \<Rightarrow> nat \<Rightarrow> (PeerId \<Rightarrow> bool) \<Rightarrow> bool \<Rightarrow> PeerId list \<Rightarrow> P2pCommand \<Rightarrow> SwarmState \<Rightarrow>
     rust_panic + SwarmState \<times> swarm_effect list" where
  "handle_p2p_command W V now is_conn dial_ok conn (BroadcastConsensusMessage msg) s =
     (case sw_encode_chain W (NewConsensusMessage msg) of
        Some enc \<Rightarrow> Inr (s, [Publish enc])
      | None \<Rightarrow> Inr (s, []))"
| "handle_p2p_command W V now is_conn dial_ok conn (SendDirectRequest dest req) s =
     (case req of
        SubmitVote vote \<Rightarrow> if logs_short (se_debug V) (v_batch_hash vote) then Inl SliceLength else Inr (s, [SendRequest dest req])
      | _ \<Rightarrow> Inr (s, [SendRequest dest req]))"
| "handle_p2p_command W V now is_conn dial_ok conn (ApplyPenalty peer penalty) s =
     (case peer_scores s peer of
        None \<Rightarrow> Inr (s, [])
      | Some info \<Rightarrow> bindR (apply_penalty (se_profile V) now penalty info) (\<lambda>info'.
          Inr (s\<lparr>peer_scores := (peer_scores s)(peer \<mapsto> info')\<rparr>, [])))"
| "handle_p2p_command W V now is_conn dial_ok conn (DialAddress addr) s =
     (case sw_last_p2p W addr of
        None \<Rightarrow> Inr (s, [])
      | Some peer \<Rightarrow>
          if \<not> is_conn peer \<and> peer \<notin> pending_dials s
          then Inr (if dial_ok then s\<lparr>pending_dials := insert peer (pending_dials s)\<rparr> else s, [Dial addr])
          else Inr (s, []))"
| "handle_p2p_command W V now is_conn dial_ok conn GetConnectedPeers s = Inr (s, [ConnectedPeers conn])"

text \<open>An address book of its own for the bootstrap node: newcomers and the peers it knows are told of each other.\<close>

definition identify_received :: "swarm_ops \<Rightarrow> swarm_env \<Rightarrow> PeerId \<Rightarrow> Multiaddr list \<Rightarrow> SwarmState \<Rightarrow> SwarmState \<times> swarm_effect list" where
  "identify_received W V peer addrs s =
     (let good = filter (\<lambda>a. \<not> is_loopback W V a) addrs;
          valid_addrs = map (sw_with_p2p W peer) good;
          adds = map (KadAddAddress peer) good
      in if se_bootstrap V \<and> valid_addrs \<noteq> [] \<and> map_of (known_peers s) peer = None
         then (s\<lparr>known_peers := (peer, hd valid_addrs) # known_peers s\<rparr>,
               adds @
               (if known_peers s \<noteq> [] then [SendRequest peer (InformAboutPeers (map (sw_addr_text W \<circ> snd) (known_peers s)))] else []) @
               map (\<lambda>(other, _). SendRequest other (InformAboutPeers (map (sw_addr_text W) valid_addrs))) (known_peers s))
         else (s, adds))"

definition connection_established :: "swarm_env \<Rightarrow> PeerId \<Rightarrow> Multiaddr \<Rightarrow> nat \<Rightarrow> SwarmState \<Rightarrow> SwarmState \<times> swarm_effect list" where
  "connection_established V peer addr num s =
     (let s1 = s\<lparr>pending_dials := pending_dials s - {peer},
                 peer_scores := (case peer_scores s peer of None \<Rightarrow> (peer_scores s)(peer \<mapsto> new_peer) | Some _ \<Rightarrow> peer_scores s)\<rparr>;
          effs = [KadAddAddress peer addr, AddExplicitPeer peer]
      in if \<not> initial_discovery_triggered s \<and> num > 0
         then (s1\<lparr>initial_discovery_triggered := True\<rparr>, effs @ [KadGetClosestPeers (se_local V)])
         else (s1, effs))"

definition connection_closed :: "PeerId \<Rightarrow> SwarmState \<Rightarrow> SwarmState" where
  "connection_closed peer s = s\<lparr>pending_dials := pending_dials s - {peer}, peer_scores := (peer_scores s)(peer := None)\<rparr>"

text \<open>
  Where a batch is looked up for a peer: the pending proposals, then the confirmed batches; a
  node that is no authority has no consensus state.
\<close>

definition find_batch :: "'c externals \<Rightarrow> 'c CoreState option \<Rightarrow> bytes \<Rightarrow> PendingBatch option" where
  "find_batch X cs h =
     (case cs of
        None \<Rightarrow> None
      | Some n \<Rightarrow>
          (case pending_proposals n h of
             Some p \<Rightarrow> Some p
           | None \<Rightarrow>
               (case find (\<lambda>b. calculate_hash (x_crypto X) (pb_header b) = h) (optimistically_confirmed_batches n) of
                  Some b \<Rightarrow> Some \<lparr>pend_header = pb_header b, pend_payloads = pb_payloads b, parent_qc = pb_justify b, pend_round = pb_round b\<rparr>
                | None \<Rightarrow> None)))"

definition fallback_answer :: "'c externals \<Rightarrow> PeerId \<Rightarrow> PendingBatch \<Rightarrow> swarm_effect" where
  "fallback_answer X peer batch =
     ToSelf (SendDirectRequest peer (FullProposalForCommittee
       \<lparr>oc_header = pend_header batch, payload_hashes = map (payload_hash (x_crypto X)) (pend_payloads batch),
        oc_parent_qc = parent_qc batch, oc_round = pend_round batch\<rparr> (pend_payloads batch)))"

definition gossip_message ::
  "'c externals \<Rightarrow> swarm_ops \<Rightarrow> swarm_env \<Rightarrow> 'c CoreState option \<Rightarrow> PeerId \<Rightarrow> bool \<Rightarrow> bytes \<Rightarrow> nat \<Rightarrow> SwarmState \<Rightarrow>
     rust_panic + SwarmState \<times> swarm_effect list" where
  "gossip_message X W V cs peer on_fallback data now s =
     (if on_fallback then
        (case sw_decode_request W data of
           Some (GetFullProposal h) \<Rightarrow>
             if logs_short (se_info V) h then Inl SliceLength
             else Inr (s, case find_batch X cs h of None \<Rightarrow> [] | Some batch \<Rightarrow> [fallback_answer X peer batch])
         | _ \<Rightarrow> Inr (s, []))
      else
        let info = (case peer_scores s peer of None \<Rightarrow> new_peer | Some i \<Rightarrow> i) in
        (case sw_decode_chain W data of
           None \<Rightarrow> bindR (apply_penalty (se_profile V) now PENALTY_DESERIALIZATION_ERROR info) (\<lambda>info'.
             Inr (s\<lparr>peer_scores := (peer_scores s)(peer \<mapsto> info')\<rparr>, [ReportAccept peer]))
         | Some chain \<Rightarrow> bindR (apply_reward (se_profile V) REWARD_VALID_MESSAGE info) (\<lambda>info'.
             Inr (s\<lparr>peer_scores := (peer_scores s)(peer \<mapsto> info')\<rparr>,
               ReportAccept peer # (case chain of NewConsensusMessage msg \<Rightarrow> [ToConsensus msg peer] | NewPayload _ \<Rightarrow> [])))))"

definition proposal_of_pending :: "PendingBatch \<Rightarrow> PayloadBatch" where
  "proposal_of_pending p = \<lparr>pb_header = pend_header p, pb_payloads = pend_payloads p, pb_justify = parent_qc p, pb_round = pend_round p\<rparr>"

definition proposal_of_confirmation :: "OptimisticConfirmation \<Rightarrow> AppPayload list \<Rightarrow> PayloadBatch" where
  "proposal_of_confirmation c payloads =
     \<lparr>pb_header = oc_header c, pb_payloads = payloads, pb_justify = oc_parent_qc c, pb_round = oc_round c\<rparr>"

text \<open>The task that answers a request; \<open>chan\<close> is the channel of the answer.\<close>

fun sync_request ::
  "'c externals \<Rightarrow> swarm_ops \<Rightarrow> swarm_env \<Rightarrow> 'c CoreState option \<Rightarrow> PeerId \<Rightarrow> nat \<Rightarrow> SyncRequest \<Rightarrow> swarm_effect list" where
  "sync_request X W V cs peer chan (SubmitVote vote) = [ToConsensus (VelocityVoteMsg vote) peer, SendResponse chan VoteAck]"
| "sync_request X W V cs peer chan (ConsensusRequest msg) = [ToConsensus msg peer, SendResponse chan (ConsensusResponse None)]"
| "sync_request X W V cs peer chan (GetFullProposal h) =
     (let found = find_batch X cs h
      in if logs_short (if found = None then se_warn V else se_info V) h then [] else [SendResponse chan (FullProposal found)])"
| "sync_request X W V cs peer chan (FullProposalForCommittee c payloads) =
     [ToConsensus (IntentBatchProposal (proposal_of_confirmation c payloads)) peer, SendResponse chan FullProposalReceivedAck]"
| "sync_request X W V cs peer chan (InformAboutPeers addrs) =
     concat (map (\<lambda>txt. case sw_parse_addr W txt of
         None \<Rightarrow> []
       | Some addr \<Rightarrow> (case sw_last_p2p W addr of
           None \<Rightarrow> []
         | Some p \<Rightarrow> if p \<noteq> se_local V then [ToSelf (DialAddress addr)] else [])) addrs) @
     [SendResponse chan PeersReceivedAck]"

definition sync_request_received ::
  "'c externals \<Rightarrow> swarm_ops \<Rightarrow> swarm_env \<Rightarrow> 'c CoreState option \<Rightarrow> PeerId \<Rightarrow> nat \<Rightarrow> SyncRequest \<Rightarrow> SwarmState \<Rightarrow>
     rust_panic + SwarmState \<times> swarm_effect list" where
  "sync_request_received X W V cs peer chan req s =
     (case req of
        SubmitVote vote \<Rightarrow> if logs_short (se_debug V) (v_batch_hash vote) then Inl SliceLength
                           else Inr (s, sync_request X W V cs peer chan req)
      | _ \<Rightarrow> Inr (s, sync_request X W V cs peer chan req))"

fun sync_response :: "PeerId \<Rightarrow> SyncResponse \<Rightarrow> swarm_effect list" where
  "sync_response peer (ConsensusResponse (Some msg)) = [ToConsensus msg peer]"
| "sync_response peer (FullProposal (Some p)) = [ToConsensus (IntentBatchProposal (proposal_of_pending p)) peer]"
| "sync_response peer _ = []"

text \<open>The answer with a batch is logged with the hash of the batch before it is passed on.\<close>

definition sync_response_received ::
  "'c externals \<Rightarrow> swarm_env \<Rightarrow> PeerId \<Rightarrow> SyncResponse \<Rightarrow> SwarmState \<Rightarrow> rust_panic + SwarmState \<times> swarm_effect list" where
  "sync_response_received X V peer resp s =
     (case resp of
        FullProposal (Some p) \<Rightarrow>
          if logs_short (se_info V) (calculate_hash (x_crypto X) (pend_header p)) then Inl SliceLength
          else Inr (s, sync_response peer resp)
      | _ \<Rightarrow> Inr (s, sync_response peer resp))"

section \<open>The loop\<close>

fun swarm_step ::
  "'c externals \<Rightarrow> swarm_ops \<Rightarrow> swarm_env \<Rightarrow> 'c CoreState option \<Rightarrow> swarm_event \<Rightarrow> SwarmState \<Rightarrow>
     rust_panic + SwarmState \<times> swarm_effect list" where
  "swarm_step X W V cs (StabilityTick now peers) s = Inr (stability_tick V now peers s, [])"
| "swarm_step X W V cs (CommandReceived cmd now is_conn dial_ok conn) s = handle_p2p_command W V now is_conn dial_ok conn cmd s"
| "swarm_step X W V cs (ResponseReady chan resp) s = Inr (s, [SendResponse chan resp])"
| "swarm_step X W V cs (KadClosestPeers peers is_conn) s =
     Inr (s, map DialPeer (filter (\<lambda>p. p \<noteq> se_local V \<and> \<not> is_conn p) peers))"
| "swarm_step X W V cs (IdentifyReceived peer addrs) s = Inr (identify_received W V peer addrs s)"
| "swarm_step X W V cs (ConnectionEstablished peer addr num) s = Inr (connection_established V peer addr num s)"
| "swarm_step X W V cs (ConnectionClosed peer) s = Inr (connection_closed peer s, [])"
| "swarm_step X W V cs (NewListenAddr addr) s = Inr (s, [])"
| "swarm_step X W V cs (GossipMessage peer fallback data now) s = gossip_message X W V cs peer fallback data now s"
| "swarm_step X W V cs (SyncRequestReceived peer req chan) s = sync_request_received X W V cs peer chan req s"
| "swarm_step X W V cs (SyncResponseReceived peer resp) s = sync_response_received X V peer resp s"
| "swarm_step X W V cs OtherEvent s = Inr (s, [])"

fun swarm_run ::
  "'c externals \<Rightarrow> swarm_ops \<Rightarrow> swarm_env \<Rightarrow> 'c CoreState option \<Rightarrow> swarm_event list \<Rightarrow> SwarmState \<Rightarrow> rust_panic + SwarmState \<times> swarm_effect list" where
  "swarm_run X W V cs [] s = Inr (s, [])"
| "swarm_run X W V cs (e # es) s =
     bindR (swarm_step X W V cs e s) (\<lambda>(s', effs). bindR (swarm_run X W V cs es s') (\<lambda>(s'', effs'). Inr (s'', effs @ effs')))"

section \<open>When the network counts as ready\<close>

definition ticks :: "swarm_event list \<Rightarrow> (nat \<times> nat) list" where
  "ticks es = concat (map (\<lambda>e. case e of StabilityTick now peers \<Rightarrow> [(now, peers)] | _ \<Rightarrow> []) es)"

text \<open>The ticks of the latest unbroken stretch with enough peers, the most recent first.\<close>

definition stretch :: "swarm_env \<Rightarrow> swarm_event list \<Rightarrow> (nat \<times> nat) list" where
  "stretch V es = takeWhile (\<lambda>(_, peers). se_threshold V \<le> peers) (rev (ticks es))"

lemma swarm_run_snoc:
  assumes "swarm_run X W V cs (es @ [e]) s = Inr (s'', effs)"
  obtains s' effs1 effs2 where "swarm_run X W V cs es s = Inr (s', effs1)" "swarm_step X W V cs e s' = Inr (s'', effs2)"
    "effs = effs1 @ effs2"
  using assms
proof (induction es arbitrary: s effs thesis)
  case Nil
  then show ?case
    by (auto simp: panic_simps)
next
  case (Cons e' es)
  from Cons.prems(2) obtain s1 ef1 ef2 where step: "swarm_step X W V cs e' s = Inr (s1, ef1)"
    "swarm_run X W V cs (es @ [e]) s1 = Inr (s'', ef2)" "effs = ef1 @ ef2"
    by (auto simp: panic_simps)
  show ?case
    by (rule Cons.IH [OF _ step(2)]) (use step Cons.prems(1) in auto)
qed

lemma stability_frame:
  assumes "swarm_step X W V cs e s = Inr (s', effs)" "ticks [e] = []"
  shows "stable_since s' = stable_since s" "network_ready s' = network_ready s"
proof -
  have "stable_since s' = stable_since s \<and> network_ready s' = network_ready s"
  proof (cases e)
    case (CommandReceived cmd now is_conn dial_ok conn)
    with assms(1) show ?thesis
      by (cases cmd) (auto simp: panic_simps split: option.splits if_splits SyncRequest.splits)
  next
    case (GossipMessage peer fallback data now)
    with assms(1) show ?thesis
      by (auto simp: gossip_message_def panic_simps Let_def split: option.splits if_splits SyncRequest.splits)
  qed (use assms in \<open>auto simp: ticks_def identify_received_def connection_established_def connection_closed_def
      sync_request_received_def sync_response_received_def Let_def split: if_splits SyncRequest.splits SyncResponse.splits option.splits\<close>)
  then show "stable_since s' = stable_since s" "network_ready s' = network_ready s"
    by auto
qed

lemma stretch_simps:
  "stretch V [] = []"
  "ticks [e] = [] \<Longrightarrow> stretch V (es @ [e]) = stretch V es"
  "stretch V (es @ [StabilityTick now peers]) = (if se_threshold V \<le> peers then (now, peers) # stretch V es else [])"
  by (simp_all add: stretch_def ticks_def)

lemma stretch_before:
  assumes "sorted (map fst (ticks (es @ [StabilityTick now peers])))" "stretch V es \<noteq> []"
  shows "fst (hd (stretch V es)) \<le> now"
proof -
  have "set (stretch V es) \<subseteq> set (ticks es)"
    using set_takeWhileD by (fastforce simp: stretch_def)
  with assms(2) have "hd (stretch V es) \<in> set (ticks es)"
    using hd_in_set by blast
  with assms(1) show ?thesis
    by (auto simp: ticks_def sorted_append)
qed

text \<open>What the task knows of the stretch: its first tick, and whether it spans the window.\<close>

definition tracks :: "swarm_env \<Rightarrow> swarm_event list \<Rightarrow> SwarmState \<Rightarrow> bool" where
  "tracks V es s \<longleftrightarrow>
     stable_since s = (if stretch V es = [] then None else Some (fst (last (stretch V es)))) \<and>
     (network_ready s \<longleftrightarrow> stretch V es \<noteq> [] \<and>
        1000 * NETWORK_STABILITY_WINDOW \<le> fst (hd (stretch V es)) - fst (last (stretch V es)))"

lemma swarm_run_tracks:
  assumes "swarm_run X W V cs es swarm_start = Inr (s, effs)" "sorted (map fst (ticks es))"
  shows "tracks V es s"
  using assms
proof (induction es arbitrary: s effs rule: rev_induct)
  case Nil
  then have "s = swarm_start"
    by simp
  then show ?case
    by (simp add: tracks_def stretch_simps swarm_start_def)
next
  case (snoc e es)
  obtain s1 ef1 ef2 where run: "swarm_run X W V cs es swarm_start = Inr (s1, ef1)" "swarm_step X W V cs e s1 = Inr (s, ef2)"
    by (rule swarm_run_snoc [OF snoc.prems(1)])
  have "sorted (map fst (ticks es))"
    using snoc.prems(2) by (simp add: ticks_def sorted_append)
  from snoc.IH [OF run(1) this] have IH: "tracks V es s1" .
  show ?case
  proof (cases "ticks [e] = []")
    case True
    with stability_frame [OF run(2)] IH show ?thesis
      by (simp add: tracks_def stretch_simps)
  next
    case False
    then obtain now peers where e: "e = StabilityTick now peers"
      by (cases e) (auto simp: ticks_def)
    with IH run(2) stretch_before [of es now peers V] snoc.prems(2) show ?thesis
      by (auto simp: tracks_def stretch_simps stability_tick_def Let_def split: if_splits)
  qed
qed

text \<open>
  After any sequence of events the network counts as ready exactly when the latest unbroken
  stretch of stability ticks with at least the required number of connected peers spans the
  stability window.
\<close>

lemma network_ready_exact:
  assumes "swarm_run X W V cs es swarm_start = Inr (s, effs)" "sorted (map fst (ticks es))"
  shows "network_ready s \<longleftrightarrow>
    stretch V es \<noteq> [] \<and> 1000 * NETWORK_STABILITY_WINDOW \<le> fst (hd (stretch V es)) - fst (last (stretch V es))"
  using swarm_run_tracks [OF assms] by (simp add: tracks_def)

definition sample_ops :: swarm_ops where
  "sample_ops = \<lparr>sw_loopback_ip = (\<lambda>_. False), sw_last_p2p = Some, sw_with_p2p = (\<lambda>p a. a @ p), sw_addr_text = id,
     sw_parse_addr = Some, sw_encode_chain = (\<lambda>_. Some []), sw_decode_chain = (\<lambda>_. None),
     sw_decode_request = (\<lambda>bs. Some (GetFullProposal bs))\<rparr>"

definition sample_env :: swarm_env where
  "sample_env = \<lparr>se_local = ''me'', se_dev = False, se_bootstrap = False, se_threshold = 2, se_warn = True, se_info = True,
     se_debug = False, se_profile = Release\<rparr>"

section \<open>When the network task panics\<close>

text \<open>The events whose handling formats the first four bytes of a shorter hash for a log message.\<close>

fun short_log :: "swarm_ops \<Rightarrow> swarm_env \<Rightarrow> swarm_event \<Rightarrow> bool" where
  "short_log W V (CommandReceived (SendDirectRequest _ (SubmitVote vote)) _ _ _ _) = logs_short (se_debug V) (v_batch_hash vote)"
| "short_log W V (GossipMessage _ fallback data _) =
     (fallback \<and> (case sw_decode_request W data of Some (GetFullProposal h) \<Rightarrow> logs_short (se_info V) h | _ \<Rightarrow> False))"
| "short_log W V (SyncRequestReceived _ (SubmitVote vote) _) = logs_short (se_debug V) (v_batch_hash vote)"
| "short_log W V _ = False"

text \<open>The penalties the consensus engine asks for.\<close>

fun penalty_ok :: "swarm_event \<Rightarrow> bool" where
  "penalty_ok (CommandReceived (ApplyPenalty _ p) _ _ _ _) = (- 1000 \<le> p \<and> p \<le> 0)"
| "penalty_ok _ = True"

definition scores_ok :: "SwarmState \<Rightarrow> bool" where
  "scores_ok s \<longleftrightarrow> (\<forall>peer info. peer_scores s peer = Some info \<longrightarrow> peer_ok info)"

lemma new_peer_ok: "peer_ok new_peer"
  by (simp add: peer_ok_def new_peer_def score_defs)

lemma scores_ok_upd: "scores_ok s \<Longrightarrow> peer_ok i \<Longrightarrow> scores_ok (s\<lparr>peer_scores := (peer_scores s)(p \<mapsto> i)\<rparr>)"
  by (auto simp: scores_ok_def)

lemma command_safe:
  assumes "scores_ok s" "penalty_ok (CommandReceived cmd now is_conn dial_ok conn)"
  shows "if short_log W V (CommandReceived cmd now is_conn dial_ok conn)
    then handle_p2p_command W V now is_conn dial_ok conn cmd s = Inl SliceLength
    else \<exists>s' effs. handle_p2p_command W V now is_conn dial_ok conn cmd s = Inr (s', effs) \<and> scores_ok s'"
proof (cases cmd)
  case (SendDirectRequest dest req)
  with assms show ?thesis
    by (cases req) auto
next
  case (ApplyPenalty peer p)
  show ?thesis
  proof (cases "peer_scores s peer")
    case (Some info)
    with assms(1) have "peer_ok info"
      by (simp add: scores_ok_def)
    then obtain info' where "apply_penalty (se_profile V) now p info = Inr info'" "peer_ok info'"
      using peer_step_ok [of info "Penalty now p" "se_profile V"] assms(2) ApplyPenalty by auto
    with Some ApplyPenalty assms(1) show ?thesis
      by (simp add: scores_ok_upd)
  qed (use ApplyPenalty assms(1) in simp)
qed (use assms(1) in \<open>auto simp: scores_ok_def split: option.split\<close>)

lemma gossip_safe:
  assumes "scores_ok s"
  shows "if short_log W V (GossipMessage peer fallback data now)
    then gossip_message X W V cs peer fallback data now s = Inl SliceLength
    else \<exists>s' effs. gossip_message X W V cs peer fallback data now s = Inr (s', effs) \<and> scores_ok s'"
proof (cases fallback)
  case True
  with assms show ?thesis
    by (auto simp: gossip_message_def split: option.splits SyncRequest.splits)
next
  case False
  let ?info = "case peer_scores s peer of None \<Rightarrow> new_peer | Some i \<Rightarrow> i"
  have "peer_ok ?info"
    using assms new_peer_ok by (auto simp: scores_ok_def split: option.split)
  then obtain i1 i2 where "apply_penalty (se_profile V) now PENALTY_DESERIALIZATION_ERROR ?info = Inr i1" "peer_ok i1"
    "apply_reward (se_profile V) REWARD_VALID_MESSAGE ?info = Inr i2" "peer_ok i2"
    using peer_step_ok [of ?info "Penalty now PENALTY_DESERIALIZATION_ERROR" "se_profile V"]
      peer_step_ok [of ?info "Reward REWARD_VALID_MESSAGE" "se_profile V"]
    by (auto simp: PENALTY_DESERIALIZATION_ERROR_def REWARD_VALID_MESSAGE_def)
  with False assms show ?thesis
    by (auto simp: gossip_message_def Let_def scores_ok_upd split: option.split)
qed

lemma swarm_step_panics:
  assumes "scores_ok s" "penalty_ok e" "\<And>bs. 4 \<le> length (sha256 (x_crypto X) bs)"
  shows "if short_log W V e then swarm_step X W V cs e s = Inl SliceLength
    else \<exists>s' effs. swarm_step X W V cs e s = Inr (s', effs) \<and> scores_ok s'"
proof (cases e)
  case (CommandReceived cmd now is_conn dial_ok conn)
  then show ?thesis
    using command_safe [OF assms(1) assms(2) [unfolded CommandReceived], of W V]
    by (simp only: swarm_step.simps)
next
  case (GossipMessage peer fallback data now)
  then show ?thesis
    using gossip_safe [OF assms(1)] by (simp only: swarm_step.simps)
next
  case (SyncRequestReceived peer req chan)
  with assms(1) show ?thesis
    by (cases req) (auto simp: sync_request_received_def)
next
  case (SyncResponseReceived peer resp)
  have "\<not> logs_short (se_info V) (calculate_hash (x_crypto X) h)" for h
    using assms(3) by (simp add: logs_short_def calculate_hash_def not_less)
  with assms(1) SyncResponseReceived show ?thesis
    by (auto simp: sync_response_received_def split: SyncResponse.split option.split)
next
  case (ConnectionEstablished peer addr num)
  with assms(1) new_peer_ok show ?thesis
    by (auto simp: connection_established_def scores_ok_def Let_def split: option.split)
next
  case (StabilityTick now peers)
  with assms(1) show ?thesis
    by (auto simp: stability_tick_def scores_ok_def Let_def)
next
  case (IdentifyReceived peer addrs)
  with assms(1) show ?thesis
    by (auto simp: identify_received_def scores_ok_def Let_def)
next
  case (ConnectionClosed peer)
  with assms(1) show ?thesis
    by (auto simp: connection_closed_def scores_ok_def)
qed (use assms(1) in auto)

text \<open>
  C15: With a hash function whose digests have at least four bytes and the penalties the engine asks for, the network
  task panics on exactly the events that make it log a hash of fewer than four bytes; every other
  event is handled and keeps all peer scores in range.  One of the panicking events is a gossip
  request for a proposal, which any peer can send to every node.
\<close>

theorem network_task_panics_iff:
  assumes "scores_ok s" "penalty_ok e" "\<And>bs. 4 \<le> length (sha256 (x_crypto X) bs)"
  shows "if short_log W V e then swarm_step X W V cs e s = Inl SliceLength
    else \<exists>s' effs. swarm_step X W V cs e s = Inr (s', effs) \<and> scores_ok s'"
  by (rule swarm_step_panics [OF assms])

theorem network_task_panics_iff_witness:
  "swarm_step (sample_externals Release) sample_ops sample_env None (GossipMessage ''evil'' True [1, 2, 3] 0) swarm_start = Inl SliceLength"
proof -
  have "scores_ok swarm_start" "4 \<le> length (sha256 (x_crypto (sample_externals Release)) bs)" for bs
    by (simp_all add: scores_ok_def swarm_start_def sample_crypto_def)
  then show ?thesis
    using network_task_panics_iff [of swarm_start "GossipMessage ''evil'' True [1, 2, 3] 0" "sample_externals Release" sample_ops sample_env None]
    by (simp add: sample_ops_def sample_env_def logs_short_def)
qed

section \<open>Fetching a batch from a peer\<close>

lemma find_batch_held:
  assumes "auth_ok X E n" "pending_proposals n h \<noteq> None \<or> h \<in> batch_hash X ` set (optimistically_confirmed_batches n)"
  obtains p where "find_batch X (Some n) h = Some p" "calculate_hash (x_crypto X) (pend_header p) = h"
    "verify_batch_signature (x_crypto X) (address_book E) (pend_header p)"
proof (cases "pending_proposals n h")
  case (Some p)
  moreover have "calculate_hash (x_crypto X) (pend_header p) = h"
    using assms(1) Some unfolding auth_ok_def confirmed_ok_def by blast
  moreover have "verify_batch_signature (x_crypto X) (address_book E) (pend_header p)"
    using assms(1) Some unfolding auth_ok_def by blast
  ultimately show thesis
    using that by (simp add: find_batch_def)
next
  case None
  let ?P = "\<lambda>b. calculate_hash (x_crypto X) (pb_header b) = h"
  have "find ?P (optimistically_confirmed_batches n) \<noteq> None"
    using assms(2) None by (auto simp: find_None_iff batch_hash_def)
  then obtain b where b: "find ?P (optimistically_confirmed_batches n) = Some b"
    by blast
  then have "b \<in> set (optimistically_confirmed_batches n)" "?P b"
    by (auto simp: find_Some_iff)
  moreover from this(1) have "verify_batch_signature (x_crypto X) (address_book E) (pb_header b)"
    using assms(1) unfolding auth_ok_def certified_def by blast
  ultimately show thesis
    using that None b by (simp add: find_batch_def)
qed

text \<open>
  C14: A validator that holds a batch, pending or confirmed, in whatever state its tasks reached,
  answers a request for its hash with that batch; the requesting node passes it to its consensus
  engine as a proposal with the requested hash, and that proposal passes the signature check.
\<close>

theorem batch_sync_delivers:
  assumes node: "validator_node X keys vrf_keys E me vpk"
    and run: "consensus_run X E (consensus_state_new L now qc pool, []) (n, ts)"
    and held: "pending_proposals n h \<noteq> None \<or> h \<in> batch_hash X ` set (optimistically_confirmed_batches n)"
    and "4 \<le> length h" "address_book E' = address_book E"
  shows "\<exists>p b. sync_request X W V (Some n) peer chan (GetFullProposal h) = [SendResponse chan (FullProposal (Some p))] \<and>
    sync_response_received X V' server (FullProposal (Some p)) s = Inr (s, [ToConsensus (IntentBatchProposal b) server]) \<and>
    calculate_hash (x_crypto X) (pb_header b) = h \<and> task_step X E' (CheckProposal b) m = (m, [InsertProposal b])"
proof -
  have "auth_ok X E n"
    using validator_node.auth_run_keeps [OF node run] initial_ok(2) [of X E L now qc pool] by simp
  from find_batch_held [OF this held] obtain p where p: "find_batch X (Some n) h = Some p"
    "calculate_hash (x_crypto X) (pend_header p) = h" "verify_batch_signature (x_crypto X) (address_book E) (pend_header p)" .
  with assms(4,5) show ?thesis
    by (intro exI [of _ p] exI [of _ "proposal_of_pending p"])
      (simp add: sync_response_received_def proposal_of_pending_def logs_short_def)
qed

theorem batch_sync_delivers_witness:
  "\<exists>p b. sync_request (sample_externals Release) sample_ops sample_env (Some sample_end) ''q'' 0 (GetFullProposal (sample_hash 2 1)) =
       [SendResponse 0 (FullProposal (Some p))] \<and>
     sync_response_received (sample_externals Release) sample_env ''s'' (FullProposal (Some p)) swarm_start =
       Inr (swarm_start, [ToConsensus (IntentBatchProposal b) ''s'']) \<and>
     calculate_hash sample_crypto (pb_header b) = sample_hash 2 1"
proof -
  have "sample_hash 2 1 \<in> batch_hash (sample_externals Release) ` set (optimistically_confirmed_batches sample_end)"
    by (simp add: sample_end_confirmed batch_hash_def)
  then show ?thesis
    using batch_sync_delivers [OF sample_node [of 1] sample_run [unfolded sample_start_def], of "sample_hash 2 1" "sample_engine 3"
        sample_ops sample_env "''q''" 0 sample_env "''s''" swarm_start sample_start]
    by auto
qed

end
