(* ===== verification/Observer.thy ===== *)
theory Observer
  imports Swarm
begin

text \<open>
  The network task of a node that is no authority (\<^verbatim>\<open>zkapp/node/src/main.rs\<close>, \<^verbatim>\<open>evice-multi-sequencer/src/p2p/swarm.rs\<close>).
  The channel to the consensus engine has room for a hundred messages, and without an engine nobody
  takes them out.  A task that handles gossip holds the lock on the peer scores while it waits for
  room.  A task runs until it ends or waits before the loop takes its next event.  (The entry a
  waiting task makes for a new peer is left out: the lock is never freed again.)
\<close>

section \<open>The bounded channel\<close>

definition CONSENSUS_CHANNEL :: nat where "CONSENSUS_CHANNEL = 100"

datatype loop_state = Running | Waiting | Panicked

record observer =
  ob_swarm :: SwarmState
  ob_queue :: nat
  ob_blocked :: bool
  ob_loop :: loop_state

definition observer_start :: observer where
  "observer_start = \<lparr>ob_swarm = swarm_start, ob_queue = 0, ob_blocked = False, ob_loop = Running\<rparr>"

text \<open>Events for which the loop itself takes the lock on the scores.\<close>

fun needs_scores :: "swarm_event \<Rightarrow> bool" where
  "needs_scores (CommandReceived (ApplyPenalty _ _) _ _ _ _) = True"
| "needs_scores (ConnectionEstablished _ _ _) = True"
| "needs_scores (ConnectionClosed _) = True"
| "needs_scores _ = False"

fun to_consensus :: "swarm_effect \<Rightarrow> bool" where
  "to_consensus (ToConsensus _ _) = True"
| "to_consensus _ = False"

text \<open>
  A gossip task that finds the channel full keeps the scores locked, and later ones wait for the
  lock; an answer to a request is passed on by the loop itself, which then waits.
\<close>

definition observer_step :: "'c externals \<Rightarrow> swarm_ops \<Rightarrow> swarm_env \<Rightarrow> swarm_event \<Rightarrow> observer \<Rightarrow> observer" where
  "observer_step X W V e ob =
     (if ob_loop ob \<noteq> Running then ob
      else if ob_blocked ob \<and> needs_scores e then ob\<lparr>ob_loop := Waiting\<rparr>
      else case swarm_step X W V None e (ob_swarm ob) of
        Inl _ \<Rightarrow> ob\<lparr>ob_loop := Panicked\<rparr>
      | Inr (s, effs) \<Rightarrow>
          let sends = list_ex to_consensus effs;
              full = (ob_queue ob \<ge> CONSENSUS_CHANNEL);
              ob' = ob\<lparr>ob_swarm := s, ob_queue := (if sends \<and> \<not> full then ob_queue ob + 1 else ob_queue ob)\<rparr>
          in case e of
               GossipMessage _ fallback _ _ \<Rightarrow>
                 if \<not> fallback \<and> ob_blocked ob then ob else if sends \<and> full then ob\<lparr>ob_blocked := True\<rparr> else ob'
             | SyncResponseReceived _ _ \<Rightarrow> if sends \<and> full then ob\<lparr>ob_loop := Waiting\<rparr> else ob'
             | _ \<Rightarrow> ob')"

fun observer_run :: "'c externals \<Rightarrow> swarm_ops \<Rightarrow> swarm_env \<Rightarrow> swarm_event list \<Rightarrow> observer \<Rightarrow> observer" where
  "observer_run X W V [] ob = ob"
| "observer_run X W V (e # es) ob = observer_run X W V es (observer_step X W V e ob)"

section \<open>How it ends\<close>

text \<open>A gossip message with a proposal, a vote or a certificate.\<close>

fun consensus_gossip :: "swarm_ops \<Rightarrow> swarm_event \<Rightarrow> bool" where
  "consensus_gossip W (GossipMessage _ fallback data _) \<longleftrightarrow>
     \<not> fallback \<and> (case sw_decode_chain W data of Some (NewConsensusMessage _) \<Rightarrow> True | _ \<Rightarrow> False)"
| "consensus_gossip W _ \<longleftrightarrow> False"

lemma observer_run_append: "observer_run X W V (es @ es') ob = observer_run X W V es' (observer_run X W V es ob)"
  by (induction es arbitrary: ob) auto

lemma consensus_gossip_sends:
  assumes "consensus_gossip W e" "swarm_step X W V cs e s = Inr (s', effs)"
  shows "list_ex to_consensus effs"
  using assms
  by (cases e) (auto simp: gossip_message_def panic_simps Let_def split: option.splits ChainMessage.splits)

text \<open>The events that make no panic, and what holds of the node as long as only such events come.\<close>

definition harmless :: "swarm_ops \<Rightarrow> swarm_env \<Rightarrow> swarm_event \<Rightarrow> bool" where
  "harmless W V e \<longleftrightarrow> penalty_ok e \<and> \<not> short_log W V e"

definition observer_inv :: "nat \<Rightarrow> observer \<Rightarrow> bool" where
  "observer_inv k ob \<longleftrightarrow> scores_ok (ob_swarm ob) \<and> ob_loop ob \<noteq> Panicked \<and>
     (ob_loop ob = Waiting \<or> ob_blocked ob \<or> k \<le> ob_queue ob \<and> ob_queue ob \<le> CONSENSUS_CHANNEL)"

lemma observer_step_inv:
  assumes "observer_inv k ob" "harmless W V e" "\<And>bs. 4 \<le> length (sha256 (x_crypto X) bs)"
  shows "observer_inv (if consensus_gossip W e then k + 1 else k) (observer_step X W V e ob)"
proof -
  from assms obtain s effs where step: "swarm_step X W V None e (ob_swarm ob) = Inr (s, effs)" "scores_ok s"
    using swarm_step_panics [of "ob_swarm ob" e X W V None] unfolding observer_inv_def harmless_def by auto
  with assms(1) consensus_gossip_sends [OF _ step(1)] show ?thesis
    by (cases e) (auto simp: observer_inv_def observer_step_def Let_def simp del: swarm_step.simps intro: loop_state.exhaust)
qed

text \<open>Until a task is blocked, every consensus message takes a place of the channel.\<close>

lemma observer_run_inv:
  assumes "list_all (harmless W V) es" "\<And>bs. 4 \<le> length (sha256 (x_crypto X) bs)"
  shows "observer_inv (length (filter (consensus_gossip W) es)) (observer_run X W V es observer_start)"
  using assms(1)
proof (induction es rule: rev_induct)
  case Nil
  then show ?case
    by (simp add: observer_inv_def observer_start_def scores_ok_def swarm_start_def)
next
  case (snoc e es)
  then show ?case
    using observer_step_inv [OF _ _ assms(2), of _ "observer_run X W V es observer_start" W V e]
    by (auto simp: observer_run_append split: if_splits)
qed

lemma waiting_stays: "ob_loop ob = Waiting \<Longrightarrow> ob_loop (observer_run X W V es ob) = Waiting"
  by (induction es arbitrary: ob) (simp_all add: observer_step_def)

text \<open>
  C16: A node that is no authority stops for good.  Once more than a hundred consensus messages were
  gossiped to it, among any other events that make no panic, the loop of its network task waits
  forever from the next connection that opens or closes, or penalty, on, whatever comes later.  (The
  hash function is assumed to give at least four bytes.)
\<close>

theorem observer_node_hangs:
  assumes "list_all (harmless W V) es" "100 < length (filter (consensus_gossip W) es)" "needs_scores e"
    "\<And>bs. 4 \<le> length (sha256 (x_crypto X) bs)"
  shows "ob_loop (observer_run X W V (es @ e # es') observer_start) = Waiting"
proof -
  let ?ob = "observer_run X W V es observer_start"
  have "ob_loop ?ob = Waiting \<or> ob_loop ?ob = Running \<and> ob_blocked ?ob"
    using observer_run_inv [OF assms(1,4)] assms(2)
    by (cases "ob_loop ?ob") (auto simp: observer_inv_def CONSENSUS_CHANNEL_def)
  then have "ob_loop (observer_step X W V e ?ob) = Waiting"
    using assms(3) by (auto simp: observer_step_def)
  then show ?thesis
    by (simp add: observer_run_append waiting_stays)
qed

text \<open>A hundred and one votes from one peer, then its connection closes.\<close>

definition vote_ops :: swarm_ops where
  "vote_ops = sample_ops\<lparr>sw_decode_chain := (\<lambda>_. Some (NewConsensusMessage (VelocityVoteMsg (sample_vote 1 1 (replicate 32 0)))))\<rparr>"

theorem observer_node_hangs_witness:
  "ob_loop (observer_run (sample_externals Release) vote_ops sample_env
     (replicate 101 (GossipMessage ''p'' False [] 0) @ [ConnectionClosed ''p'']) observer_start) = Waiting"
proof -
  have "list_all (harmless vote_ops sample_env) (replicate 101 (GossipMessage ''p'' False [] 0))"
    by (simp add: list_all_iff harmless_def)
  moreover have "100 < length (filter (consensus_gossip vote_ops) (replicate 101 (GossipMessage ''p'' False [] 0)))"
    by (simp add: vote_ops_def)
  ultimately show ?thesis
    by (intro observer_node_hangs) (simp_all add: sample_crypto_def)
qed

end
