(* ===== verification/Lock_Order.thy ===== *)
theory Lock_Order
  imports Prelude
begin

text \<open>
  The locks of the consensus state.  The tasks of the engine
  (\<^verbatim>\<open>evice-multi-sequencer/src/consensus/engine.rs\<close>, \<^verbatim>\<open>state.rs\<close>) and the tasks that answer requests for
  batches (\<^verbatim>\<open>p2p/swarm.rs\<close>) are reduced to the locks they take and free along each of their paths; the
  locks are those of tokio, which serve the waiting tasks in the order they came.  Left out are the lock
  around the whole state, which is only ever read, and the abortion of the task of a round.
\<close>

section \<open>Fair read-write locks\<close>

datatype lock = BookLock | CoreLock | PendingLock | QueuesLock | CacheLock | MempoolLock

datatype lock_mode = Shared | Exclusive

datatype lock_op = Acquire lock lock_mode | Unlock lock

record lock_state =
  programs :: "lock_op list list"
  holders :: "lock \<Rightarrow> (nat \<times> lock_mode) list"
  waiting :: "lock \<Rightarrow> (nat \<times> lock_mode) list"

definition lock_start :: "lock_op list list \<Rightarrow> lock_state" where
  "lock_start ps = \<lparr>programs = ps, holders = (\<lambda>_. []), waiting = (\<lambda>_. [])\<rparr>"

fun grantable :: "lock_mode \<Rightarrow> (nat \<times> lock_mode) list \<Rightarrow> bool" where
  "grantable Exclusive hs \<longleftrightarrow> hs = []"
| "grantable Shared hs \<longleftrightarrow> list_all (\<lambda>(_, m). m = Shared) hs"

text \<open>A move of task \<open>t\<close>: free a lock, queue up for one, or take one at the head of its queue.\<close>

definition move :: "nat \<Rightarrow> lock_state \<Rightarrow> lock_state option" where
  "move t s =
     (if length (programs s) \<le> t then None
      else case programs s ! t of
        [] \<Rightarrow> None
      | Unlock l # p \<Rightarrow>
          Some (s\<lparr>programs := (programs s)[t := p], holders := (holders s)(l := filter (\<lambda>(u, _). u \<noteq> t) (holders s l))\<rparr>)
      | Acquire l m # p \<Rightarrow>
          if t \<notin> fst ` set (waiting s l) then Some (s\<lparr>waiting := (waiting s)(l := waiting s l @ [(t, m)])\<rparr>)
          else if fst (hd (waiting s l)) = t \<and> grantable m (holders s l)
          then Some (s\<lparr>programs := (programs s)[t := p], waiting := (waiting s)(l := tl (waiting s l)),
                       holders := (holders s)(l := (t, m) # holders s l)\<rparr>)
          else None)"

fun run_moves :: "nat list \<Rightarrow> lock_state \<Rightarrow> lock_state option" where
  "run_moves [] s = Some s"
| "run_moves (t # ts) s = (case move t s of None \<Rightarrow> None | Some s' \<Rightarrow> run_moves ts s')"

definition stuck :: "lock_state \<Rightarrow> bool" where
  "stuck s \<longleftrightarrow> list_all (\<lambda>t. Option.is_none (move t s)) [0..<length (programs s)]"

definition finished :: "lock_state \<Rightarrow> bool" where
  "finished s \<longleftrightarrow> list_all (\<lambda>p. p = []) (programs s)"

section \<open>Paths of the tasks\<close>

definition crit :: "lock \<Rightarrow> lock_mode \<Rightarrow> lock_op list \<Rightarrow> lock_op list" where
  "crit l m inner = Acquire l m # inner @ [Unlock l]"

text \<open>
  \<^verbatim>\<open>process_votes_for_batch\<close>: no quorum or already processed, no proposal, confirmed.
\<close>

definition process_paths :: "lock_op list list" where
  "process_paths =
     [crit BookLock Exclusive [] @ crit CoreLock Exclusive [],
      crit BookLock Exclusive [] @ crit CoreLock Exclusive (crit PendingLock Shared []),
      crit BookLock Exclusive [] @ crit CoreLock Exclusive (crit PendingLock Shared []) @
        crit CoreLock Shared [] @ crit PendingLock Exclusive []]"

definition proposal_paths :: "lock_op list list" where
  "proposal_paths =
     [crit BookLock Exclusive [], crit BookLock Exclusive [] @ crit PendingLock Exclusive []] @
     map (\<lambda>p. crit BookLock Exclusive [] @ crit PendingLock Exclusive [] @ crit CoreLock Exclusive [] @ p) process_paths"

definition vote_paths :: "lock_op list list" where
  "vote_paths =
     [crit CoreLock Shared [], crit CoreLock Shared [] @ crit BookLock Exclusive []] @
     map (\<lambda>p. crit CoreLock Shared [] @ crit BookLock Exclusive [] @ crit CoreLock Exclusive [] @ p) process_paths"

definition certificate_paths :: "lock_op list list" where
  "certificate_paths =
     [crit BookLock Exclusive [], crit BookLock Exclusive [] @ crit CoreLock Exclusive [],
      crit BookLock Exclusive [] @ crit CoreLock Exclusive (crit PendingLock Shared []),
      crit BookLock Exclusive [] @ crit CoreLock Exclusive (crit PendingLock Shared []) @ crit QueuesLock Exclusive []]"

definition message_paths :: "lock_op list list" where
  "message_paths =
     [crit CacheLock Shared [], crit CacheLock Shared [] @ crit CacheLock Exclusive []] @
     map (\<lambda>p. crit CacheLock Shared [] @ crit CacheLock Exclusive [] @ p) (proposal_paths @ vote_paths @ certificate_paths)"

definition proposer_paths :: "lock_op list list" where
  "proposer_paths =
     map (\<lambda>p. crit CoreLock Shared [] @ crit MempoolLock Exclusive [] @ crit CoreLock Shared [] @ crit PendingLock Exclusive [] @
        crit CoreLock Exclusive [] @ p) process_paths"

definition round_paths :: "lock_op list list" where
  "round_paths =
     [crit CoreLock Shared [], crit CoreLock Shared [] @ crit BookLock Exclusive []] @
     map (\<lambda>p. crit CoreLock Shared [] @ crit BookLock Exclusive [] @ p) proposer_paths"

definition driver_paths :: "lock_op list list" where
  "driver_paths = [crit CoreLock Shared [], crit CoreLock Shared [] @ crit CoreLock Exclusive [] @ crit QueuesLock Exclusive []]"

definition engine_paths :: "lock_op list list" where
  "engine_paths = message_paths @ round_paths @ driver_paths"

text \<open>The answer to a request for a batch: found among the proposals, or looked up further with their lock still held.\<close>

definition sync_paths :: "lock_op list list" where
  "sync_paths = [crit PendingLock Shared [], crit PendingLock Shared (crit CoreLock Shared [])]"

section \<open>An order of the locks\<close>

fun lock_rank :: "lock \<Rightarrow> nat" where
  "lock_rank BookLock = 0"
| "lock_rank CoreLock = 1"
| "lock_rank PendingLock = 2"
| "lock_rank QueuesLock = 3"
| "lock_rank CacheLock = 4"
| "lock_rank MempoolLock = 5"

text \<open>A path takes every lock above those it holds, frees only what it holds, and ends holding nothing.\<close>

fun ordered :: "lock_op list \<Rightarrow> lock set \<Rightarrow> bool" where
  "ordered [] H \<longleftrightarrow> H = {}"
| "ordered (Acquire l m # p) H \<longleftrightarrow> (\<forall>k \<in> H. lock_rank k < lock_rank l) \<and> ordered p (insert l H)"
| "ordered (Unlock l # p) H \<longleftrightarrow> l \<in> H \<and> ordered p (H - {l})"

lemma engine_paths_ordered: "\<forall>p \<in> set engine_paths. ordered p {}"
  by (simp add: engine_paths_def message_paths_def round_paths_def driver_paths_def proposer_paths_def certificate_paths_def
      vote_paths_def proposal_paths_def process_paths_def crit_def)

definition held :: "lock_state \<Rightarrow> nat \<Rightarrow> lock set" where
  "held s t = {l. \<exists>m. (t, m) \<in> set (holders s l)}"

definition lock_inv :: "lock_state \<Rightarrow> bool" where
  "lock_inv s \<longleftrightarrow>
     (\<forall>t < length (programs s). ordered (programs s ! t) (held s t)) \<and>
     (\<forall>l t m. (t, m) \<in> set (holders s l) \<longrightarrow> t < length (programs s)) \<and>
     (\<forall>l t m. (t, m) \<in> set (waiting s l) \<longrightarrow> t < length (programs s) \<and> (\<exists>p. programs s ! t = Acquire l m # p)) \<and>
     (\<forall>l. distinct (map fst (waiting s l)))"

lemma lock_inv_start: "\<forall>p \<in> set ps. ordered p {} \<Longrightarrow> lock_inv (lock_start ps)"
  by (simp add: lock_inv_def lock_start_def held_def)

lemma lock_invD:
  assumes "lock_inv s"
  shows "t < length (programs s) \<Longrightarrow> ordered (programs s ! t) (held s t)"
    "(t, m) \<in> set (holders s l) \<Longrightarrow> t < length (programs s)"
    "(t, m) \<in> set (waiting s l) \<Longrightarrow> t < length (programs s) \<and> (\<exists>p. programs s ! t = Acquire l m # p)"
    "distinct (map fst (waiting s l))"
  using assms unfolding lock_inv_def by blast+

lemma move_cases [consumes 2, case_names free queue grant]:
  assumes inv: "lock_inv s" and mv: "move t s = Some s'"
  obtains (free) l p where "programs s ! t = Unlock l # p" "t < length (programs s)"
      "s' = s\<lparr>programs := (programs s)[t := p], holders := (holders s)(l := filter (\<lambda>(u, _). u \<noteq> t) (holders s l))\<rparr>"
  | (queue) l m p where "programs s ! t = Acquire l m # p" "t < length (programs s)" "t \<notin> fst ` set (waiting s l)"
      "s' = s\<lparr>waiting := (waiting s)(l := waiting s l @ [(t, m)])\<rparr>"
  | (grant) l m p ws where "programs s ! t = Acquire l m # p" "t < length (programs s)" "waiting s l = (t, m) # ws"
      "s' = s\<lparr>programs := (programs s)[t := p], waiting := (waiting s)(l := ws), holders := (holders s)(l := (t, m) # holders s l)\<rparr>"
proof (cases "programs s ! t")
  case (Cons op p)
  have t: "t < length (programs s)"
    using mv by (simp add: move_def split: if_splits)
  show ?thesis
  proof (cases op)
    case (Acquire l m)
    show ?thesis
    proof (cases "t \<in> fst ` set (waiting s l)")
      case True
      with mv t Cons Acquire have h: "fst (hd (waiting s l)) = t"
        and s': "s' = s\<lparr>programs := (programs s)[t := p], waiting := (waiting s)(l := tl (waiting s l)), holders := (holders s)(l := (t, m) # holders s l)\<rparr>"
        by (auto simp: move_def split: if_splits)
      from True h obtain m' ws where w: "waiting s l = (t, m') # ws"
        by (cases "waiting s l") auto
      moreover from this have "m' = m"
        using lock_invD(3) [OF inv, of t m' l] Cons Acquire by simp
      ultimately show ?thesis
        using grant t Cons Acquire s' by simp
    qed (use mv t Cons Acquire queue in \<open>auto simp: move_def\<close>)
  qed (use mv t Cons free in \<open>auto simp: move_def\<close>)
qed (use mv in \<open>simp add: move_def split: if_splits\<close>)

lemma lock_invI:
  assumes "\<And>t. t < length (programs s) \<Longrightarrow> ordered (programs s ! t) (held s t)"
    and "\<And>l t m. (t, m) \<in> set (holders s l) \<Longrightarrow> t < length (programs s)"
    and "\<And>l t m. (t, m) \<in> set (waiting s l) \<Longrightarrow> t < length (programs s) \<and> (\<exists>p. programs s ! t = Acquire l m # p)"
    and "\<And>l. distinct (map fst (waiting s l))"
  shows "lock_inv s"
  using assms unfolding lock_inv_def by blast

lemma move_keeps:
  assumes inv: "lock_inv s" and mv: "move t s = Some s'"
  shows "lock_inv s'"
  using inv mv
proof (cases rule: move_cases)
  case (free l p)
  have w: "u \<noteq> t" if "(u, m) \<in> set (waiting s k)" for u m k
    using lock_invD(3) [OF inv that] free(1) by auto
  have h: "held s' t = held s t - {l}" "u \<noteq> t \<Longrightarrow> held s' u = held s u" for u
    by (auto simp: free(3) held_def)
  show ?thesis
  proof (rule lock_invI)
    show "ordered (programs s' ! u) (held s' u)" if "u < length (programs s')" for u
      using lock_invD(1) [OF inv, of u] that free h by (cases "u = t") simp_all
    show "u < length (programs s')" if "(u, m) \<in> set (holders s' k)" for k u m
      using lock_invD(2) [OF inv, of u m k] that by (simp add: free(3) split: if_splits)
    show "u < length (programs s') \<and> (\<exists>p. programs s' ! u = Acquire k m # p)" if "(u, m) \<in> set (waiting s' k)" for k u m
      using lock_invD(3) [OF inv, of u m k] w [of u m k] that by (simp add: free(3))
    show "distinct (map fst (waiting s' k))" for k
      using lock_invD(4) [OF inv] by (simp add: free(3))
  qed
next
  case (queue l m p)
  show ?thesis
  proof (rule lock_invI)
    show "ordered (programs s' ! u) (held s' u)" if "u < length (programs s')" for u
      using lock_invD(1) [OF inv, of u] that by (simp add: queue(4) held_def)
    show "u < length (programs s')" if "(u, m) \<in> set (holders s' k)" for k u m
      using lock_invD(2) [OF inv, of u m k] that by (simp add: queue(4))
    show "u < length (programs s') \<and> (\<exists>p. programs s' ! u = Acquire k n # p)" if "(u, n) \<in> set (waiting s' k)" for k u n
      using lock_invD(3) [OF inv, of u n k] that queue(1,2) by (auto simp: queue(4) split: if_splits)
    show "distinct (map fst (waiting s' k))" for k
      using lock_invD(4) [OF inv, of k] queue(3) by (cases "k = l") (simp_all add: queue(4))
  qed
next
  case (grant l m p ws)
  have w: "u \<noteq> t" if "(u, n) \<in> set (waiting s' k)" for u n k
  proof (cases "k = l")
    case True
    with that lock_invD(4) [OF inv, of l] show ?thesis
      by (force simp: grant(3,4))
  next
    case False
    with that lock_invD(3) [OF inv, of u n k] grant(1) show ?thesis
      by (auto simp: grant(4))
  qed
  have h: "held s' t = insert l (held s t)" "u \<noteq> t \<Longrightarrow> held s' u = held s u" for u
    by (auto simp: grant(4) held_def)
  show ?thesis
  proof (rule lock_invI)
    show "ordered (programs s' ! u) (held s' u)" if "u < length (programs s')" for u
      using lock_invD(1) [OF inv, of u] that grant(1,2,4) h by (cases "u = t") simp_all
    show "u < length (programs s')" if "(u, n) \<in> set (holders s' k)" for k u n
      using lock_invD(2) [OF inv, of u n k] that grant(2) by (auto simp: grant(4) split: if_splits)
    show "u < length (programs s') \<and> (\<exists>p. programs s' ! u = Acquire k n # p)" if "(u, n) \<in> set (waiting s' k)" for k u n
      using lock_invD(3) [OF inv, of u n k] w [OF that] that by (auto simp: grant(3,4) split: if_splits)
    show "distinct (map fst (waiting s' k))" for k
      using lock_invD(4) [OF inv, of k] by (auto simp: grant(3,4))
  qed
qed

section \<open>Progress\<close>

lemma stuckD: "stuck s \<Longrightarrow> t < length (programs s) \<Longrightarrow> move t s = None"
  by (auto simp: stuck_def list_all_iff Option.is_none_def)

lemma stuck_waits:
  assumes "stuck s" "t < length (programs s)" "programs s ! t \<noteq> []"
  obtains l m p where "programs s ! t = Acquire l m # p" "t \<in> fst ` set (waiting s l)"
proof (cases "programs s ! t")
  case (Cons op p)
  have "move t s = None"
    by (rule stuckD [OF assms(1,2)])
  with Cons assms(2) that show thesis
    by (cases op) (auto simp: move_def split: if_splits)
qed (use assms(3) in simp)

text \<open>Where tasks wait for a lock, one of them waits for nothing or its holder waits for a higher lock.\<close>

lemma waiting_moves:
  assumes inv: "lock_inv s" and "waiting s l \<noteq> []"
  shows "\<not> stuck s"
  using assms(2)
proof (induction "5 - lock_rank l" arbitrary: l rule: less_induct)
  case less
  show ?case
  proof
    assume stuck: "stuck s"
    obtain t m ws where w: "waiting s l = (t, m) # ws"
      using less.prems by (cases "waiting s l") auto
    then obtain p where p: "programs s ! t = Acquire l m # p" "t < length (programs s)"
      using lock_invD(3) [OF inv, of t m l] by auto
    moreover have "move t s = None"
      by (rule stuckD [OF stuck p(2)])
    ultimately have "\<not> grantable m (holders s l)"
      using w by (auto simp: move_def)
    then obtain u n where u: "(u, n) \<in> set (holders s l)"
      by (cases m; cases "holders s l") (auto simp: neq_Nil_conv)
    then have ord: "u < length (programs s)" "l \<in> held s u" "ordered (programs s ! u) (held s u)"
      using lock_invD(1,2) [OF inv] by (auto simp: held_def)
    then have "programs s ! u \<noteq> []"
      by auto
    from stuck_waits [OF stuck ord(1) this] obtain k j q where k: "programs s ! u = Acquire k j # q" "u \<in> fst ` set (waiting s k)" .
    then have "lock_rank l < lock_rank k" "waiting s k \<noteq> []"
      using ord(2,3) by auto
    moreover have "lock_rank k \<le> 5"
      by (cases k) auto
    ultimately have "5 - lock_rank k < 5 - lock_rank l"
      by linarith
    from less.hyps [OF this \<open>waiting s k \<noteq> []\<close>] stuck show False
      by simp
  qed
qed

lemma unfinished_moves:
  assumes inv: "lock_inv s" and "\<not> finished s"
  shows "\<not> stuck s"
proof
  assume stuck: "stuck s"
  obtain t where t: "t < length (programs s)" "programs s ! t \<noteq> []"
    using assms(2) by (auto simp: finished_def list_all_iff in_set_conv_nth)
  from stuck_waits [OF stuck t] obtain l where "waiting s l \<noteq> []"
    by (metis empty_iff empty_set image_empty)
  with waiting_moves [OF inv] stuck show False
    by blast
qed

text \<open>Every operation takes at most two moves, so schedules are bounded.\<close>

definition moves_of :: "lock_state \<Rightarrow> nat \<Rightarrow> nat" where
  "moves_of s t = 2 * length (programs s ! t) - (if \<exists>l m. (t, m) \<in> set (waiting s l) then 1 else 0)"

definition moves_left :: "lock_state \<Rightarrow> nat" where
  "moves_left s = sum (moves_of s) {..<length (programs s)}"

lemma move_left:
  assumes inv: "lock_inv s" and mv: "move t s = Some s'"
  shows "moves_left s' < moves_left s"
proof -
  have len: "length (programs s') = length (programs s)" and t: "t < length (programs s)"
    using inv mv by (cases rule: move_cases; simp)+
  have other: "moves_of s' u \<le> moves_of s u" if "u \<noteq> t" for u
    using inv mv that by (cases rule: move_cases) (auto simp: moves_of_def)
  have less: "moves_of s' t < moves_of s t"
    using inv mv
  proof (cases rule: move_cases)
    case (free l p)
    moreover have "(t, m) \<notin> set (waiting s k)" for k m
      using lock_invD(3) [OF inv, of t m k] free(1) by auto
    ultimately show ?thesis
      by (simp add: moves_of_def)
  next
    case (queue l m p)
    have "(t, n) \<notin> set (waiting s k)" for k n
      using lock_invD(3) [OF inv, of t n k] queue(1,3) by force
    moreover have "\<exists>k n. (t, n) \<in> set (waiting s' k)"
      by (auto simp: queue(4))
    ultimately show ?thesis
      by (simp add: moves_of_def queue(1,4))
  next
    case (grant l m p ws)
    then have "\<exists>k n. (t, n) \<in> set (waiting s k)"
      by (metis list.set_intros(1))
    then show ?thesis
      using grant(1,2) by (simp add: moves_of_def grant(4))
  qed
  have "moves_of s' u \<le> moves_of s u" for u
    using other [of u] less by (cases "u = t") auto
  with less t show ?thesis
    unfolding moves_left_def len by (intro sum_strict_mono_ex1) auto
qed

lemma run_moves_keeps:
  "lock_inv s \<Longrightarrow> run_moves ts s = Some s' \<Longrightarrow> lock_inv s' \<and> length ts + moves_left s' \<le> moves_left s"
proof (induction ts arbitrary: s)
  case (Cons t ts)
  then obtain s1 where "move t s = Some s1" "run_moves ts s1 = Some s'"
    by (auto split: option.splits)
  with Cons.IH [of s1] Cons.prems(1) move_keeps [of s t s1] move_left [of s t s1] show ?case
    by fastforce
qed simp

lemma moves_left_start: "moves_left (lock_start ps) = 2 * length (concat ps)"
proof -
  have "moves_left (lock_start ps) = sum_list (map (\<lambda>p. 2 * length p) ps)"
    by (simp add: moves_left_def moves_of_def lock_start_def sum_list_sum_nth atLeast0LessThan)
  then show ?thesis
    by (simp add: length_concat sum_list_const_mult)
qed

text \<open>
  A deadlock: the vote that completes a quorum holds the core state and wants to read the
  proposals, a new proposal waits to write them, and the answer to a request reads them and
  wants the core state.
\<close>

definition deadlock_tasks :: "lock_op list list" where
  "deadlock_tasks =
     [sync_paths ! 1,
      crit CacheLock Shared [] @ crit CacheLock Exclusive [] @ crit CoreLock Shared [] @ crit BookLock Exclusive [] @
        crit CoreLock Exclusive [] @ process_paths ! 2,
      crit CacheLock Shared [] @ crit CacheLock Exclusive [] @ crit BookLock Exclusive [] @ crit PendingLock Exclusive []]"

definition deadlock_schedule :: "nat list" where
  "deadlock_schedule = replicate 20 1 @ replicate 9 2 @ [0, 0, 0, 2, 1]"

lemma deadlock_reached:
  "case run_moves deadlock_schedule (lock_start deadlock_tasks) of None \<Rightarrow> False | Some s \<Rightarrow> stuck s \<and> \<not> finished s"
  by code_simp

lemma deadlock_tasks_paths: "set deadlock_tasks \<subseteq> set (engine_paths @ sync_paths)"
  by (simp add: deadlock_tasks_def engine_paths_def message_paths_def vote_paths_def proposal_paths_def process_paths_def sync_paths_def)

text \<open>
  C11: Any mix of the tasks of the engine, however they are scheduled, takes a bounded number of
  moves and never deadlocks: when none can move, all have finished.  Together with one task that
  answers a request for a batch there is a schedule after which no task can ever move again.
\<close>

theorem consensus_locks:
  assumes "set ps \<subseteq> set engine_paths" "run_moves ts (lock_start ps) = Some s"
  shows "length ts \<le> 2 * length (concat ps) \<and> (stuck s \<longrightarrow> finished s) \<and>
    (\<exists>qs us r. set qs \<subseteq> set (engine_paths @ sync_paths) \<and> run_moves us (lock_start qs) = Some r \<and> stuck r \<and> \<not> finished r)"
proof -
  have "lock_inv (lock_start ps)"
    using engine_paths_ordered assms(1) by (intro lock_inv_start) blast
  from run_moves_keeps [OF this assms(2)] have "lock_inv s" "length ts \<le> 2 * length (concat ps)"
    by (simp_all add: moves_left_start)
  moreover have "\<exists>r. run_moves deadlock_schedule (lock_start deadlock_tasks) = Some r \<and> stuck r \<and> \<not> finished r"
    using deadlock_reached by (auto split: option.splits)
  ultimately show ?thesis
    using unfinished_moves deadlock_tasks_paths by blast
qed

theorem consensus_locks_witness:
  "\<exists>s. run_moves [0, 0, 1, 0, 1, 1] (lock_start [driver_paths ! 0, driver_paths ! 0]) = Some s \<and> finished s"
proof -
  let ?ps = "[driver_paths ! 0, driver_paths ! 0]"
  have "set ?ps \<subseteq> set engine_paths"
    by (simp add: driver_paths_def engine_paths_def)
  moreover have "case run_moves [0, 0, 1, 0, 1, 1] (lock_start ?ps) of None \<Rightarrow> False | Some s \<Rightarrow> stuck s"
    by code_simp
  ultimately show ?thesis
    using consensus_locks [of ?ps "[0, 0, 1, 0, 1, 1]"] by (auto split: option.splits)
qed

end
