(* ===== verification/Transactions.thy ===== *)
theory Transactions
  imports Seq_Types
begin

text \<open>
  The transactions of the application chain (\<^verbatim>\<open>zkapp/common/src/transaction.rs\<close>): their kinds and
  gas costs, the bytes that are hashed and signed, equality and the order of the mempool.  The
  binary encoding of the data by bincode is an argument.
\<close>

section \<open>Data and gas\<close>

datatype TransactionData =
    Transfer Address u64
  | Stake u64
  | SubmitRollupBatch bytes bytes bytes bytes bool bytes bytes "bytes list"
  | SubmitAggregateRollupBatch bytes bytes bytes u32
  | DepositToL2 u64
  | RegisterAsSequencer
  | DeregisterAsSequencer
  | DeployContract bytes
  | CallContract Address bytes
  | UpdateNetworkIdentity bytes
  | ImAlive

definition mul_u64 :: "build_profile \<Rightarrow> u64 \<Rightarrow> u64 \<Rightarrow> rust_panic + u64" where
  "mul_u64 prof a b =
     (if unat a * unat b < 2 ^ 64 then Inr (a * b)
      else case prof of Debug \<Rightarrow> Inl ArithmeticOverflow | Release \<Rightarrow> Inr (a * b))"

definition BASE_TX_GAS :: u64 where "BASE_TX_GAS = 21000"

text \<open>A cost that grows with a length: \<^verbatim>\<open>BASE_TX_GAS + extra + len as u64 * per\<close>.\<close>

definition sized_gas :: "build_profile \<Rightarrow> u64 \<Rightarrow> u64 \<Rightarrow> u64 \<Rightarrow> rust_panic + u64" where
  "sized_gas prof extra n per = bindR (mul_u64 prof n per) (\<lambda>v. add_u64 prof (BASE_TX_GAS + extra) v)"

fun base_gas_cost :: "build_profile \<Rightarrow> TransactionData \<Rightarrow> rust_panic + u64" where
  "base_gas_cost prof (Transfer _ _) = Inr BASE_TX_GAS"
| "base_gas_cost prof (Stake _) = Inr (BASE_TX_GAS + 5000)"
| "base_gas_cost prof (DepositToL2 _) = Inr (BASE_TX_GAS + 20000)"
| "base_gas_cost prof (SubmitRollupBatch _ _ compressed_batch _ _ _ _ _) = sized_gas prof 300000 (of_nat (length compressed_batch)) 50"
| "base_gas_cost prof (SubmitAggregateRollupBatch _ _ _ num_batches) = sized_gas prof 500000 (ucast num_batches) 10000"
| "base_gas_cost prof (DeployContract code) = sized_gas prof 150000 (of_nat (length code)) 200"
| "base_gas_cost prof (CallContract _ _) = Inr (BASE_TX_GAS + 5000)"
| "base_gas_cost prof RegisterAsSequencer = Inr (BASE_TX_GAS + 10000)"
| "base_gas_cost prof DeregisterAsSequencer = Inr (BASE_TX_GAS + 10000)"
| "base_gas_cost prof (UpdateNetworkIdentity multiaddr) = sized_gas prof 1000 (of_nat (length multiaddr)) 20"
| "base_gas_cost prof ImAlive = Inr BASE_TX_GAS"

section \<open>Transactions\<close>

record Transaction =
  sender_public_key :: FullPublicKey
  tx_data :: TransactionData
  tx_nonce :: u64
  max_fee_per_gas :: u64
  max_priority_fee_per_gas :: u64
  tx_signature :: bytes
  tx_chain_id :: string

definition tx_from :: "crypto_ops \<Rightarrow> Transaction \<Rightarrow> rust_panic + Address" where
  "tx_from CR t = public_key_to_address CR (pk_bytes (sender_public_key t))"

definition canonical_bytes :: "(TransactionData \<Rightarrow> bytes) \<Rightarrow> Transaction \<Rightarrow> bytes" where
  "canonical_bytes enc t =
     map of_char (tx_chain_id t) @ pk_bytes (sender_public_key t) @ enc (tx_data t) @
     to_be_bytes (tx_nonce t) @ to_be_bytes (max_fee_per_gas t) @ to_be_bytes (max_priority_fee_per_gas t)"

definition tx_message_hash :: "crypto_ops \<Rightarrow> (TransactionData \<Rightarrow> bytes) \<Rightarrow> Transaction \<Rightarrow> bytes" where
  "tx_message_hash CR enc t = sha256 CR (canonical_bytes enc t)"

definition tx_eq :: "crypto_ops \<Rightarrow> (TransactionData \<Rightarrow> bytes) \<Rightarrow> Transaction \<Rightarrow> Transaction \<Rightarrow> bool" where
  "tx_eq CR enc a b \<longleftrightarrow> tx_message_hash CR enc a = tx_message_hash CR enc b"

datatype ordering = Less | Equal | Greater

definition cmp_u64 :: "u64 \<Rightarrow> u64 \<Rightarrow> ordering" where
  "cmp_u64 a b = (if a < b then Less else if a = b then Equal else Greater)"

definition FAKE_BASE_FEE :: u64 where "FAKE_BASE_FEE = 10"

definition effective_tip :: "Transaction \<Rightarrow> u64" where
  "effective_tip t =
     min (if max_fee_per_gas t < FAKE_BASE_FEE then 0 else max_fee_per_gas t - FAKE_BASE_FEE) (max_priority_fee_per_gas t)"

definition tx_cmp :: "Transaction \<Rightarrow> Transaction \<Rightarrow> ordering" where
  "tx_cmp a b =
     (case cmp_u64 (effective_tip a) (effective_tip b) of
        Equal \<Rightarrow> cmp_u64 (tx_nonce b) (tx_nonce a)
      | c \<Rightarrow> c)"

section \<open>Facts\<close>

lemma sized_gas_exact:
  assumes "unat n * unat per + unat (BASE_TX_GAS + extra) < 2 ^ 64"
  shows "\<exists>g. sized_gas prof extra n per = Inr g \<and> unat g = unat (BASE_TX_GAS + extra) + unat n * unat per"
proof -
  have "unat (n * per) = unat n * unat per"
    using assms by (simp add: unat_word_ariths)
  then show ?thesis
    using assms add_u64_exact [of "BASE_TX_GAS + extra" "n * per" prof]
    by (simp add: sized_gas_def mul_u64_def add.commute)
qed

text \<open>An aggregate's 32-bit count cannot overflow the cost.\<close>

lemma aggregate_gas_total: "\<exists>g. base_gas_cost prof (SubmitAggregateRollupBatch i f p n) = Inr g \<and> unat g = 521000 + unat n * 10000"
proof -
  have "unat n < 2 ^ 32"
    using unsigned_less [of n] by simp
  moreover from this have "unat (ucast n :: u64) = unat n"
    by (simp add: unsigned_ucast_eq take_bit_nat_eq_self)
  ultimately show ?thesis
    using sized_gas_exact [of "ucast n" 10000 500000 prof] by (simp add: BASE_TX_GAS_def)
qed

lemma cmp_u64_simps [simp]:
  "cmp_u64 a b = Less \<longleftrightarrow> a < b" "cmp_u64 a b = Equal \<longleftrightarrow> a = b" "cmp_u64 a b = Greater \<longleftrightarrow> b < a"
  by (auto simp: cmp_u64_def)

text \<open>The order of the mempool is the lexicographic order of the tip and the reversed nonce.\<close>

lemma tx_cmp_iff:
  "tx_cmp a b = Less \<longleftrightarrow> effective_tip a < effective_tip b \<or> effective_tip a = effective_tip b \<and> tx_nonce b < tx_nonce a"
  "tx_cmp a b = Equal \<longleftrightarrow> effective_tip a = effective_tip b \<and> tx_nonce a = tx_nonce b"
  "tx_cmp a b = Greater \<longleftrightarrow> tx_cmp b a = Less"
  by (auto simp: tx_cmp_def cmp_u64_def split: ordering.split)

lemma tx_cmp_trans: "tx_cmp a b \<noteq> Greater \<Longrightarrow> tx_cmp b c \<noteq> Greater \<Longrightarrow> tx_cmp a c \<noteq> Greater"
  by (auto simp: tx_cmp_iff)

lemma canonical_bytes_inj:
  assumes "canonical_bytes enc a = canonical_bytes enc b" "tx_chain_id a = tx_chain_id b"
    and "length (pk_bytes (sender_public_key a)) = length (pk_bytes (sender_public_key b))"
  shows "sender_public_key a = sender_public_key b \<and> enc (tx_data a) = enc (tx_data b) \<and> tx_nonce a = tx_nonce b \<and>
    max_fee_per_gas a = max_fee_per_gas b \<and> max_priority_fee_per_gas a = max_priority_fee_per_gas b"
proof -
  let ?tail = "\<lambda>t. to_be_bytes (tx_nonce t) @ to_be_bytes (max_fee_per_gas t) @ to_be_bytes (max_priority_fee_per_gas t)"
  have "pk_bytes (sender_public_key a) @ enc (tx_data a) @ ?tail a = pk_bytes (sender_public_key b) @ enc (tx_data b) @ ?tail b"
    using assms(1,2) by (simp add: canonical_bytes_def)
  with assms(3) have pk: "pk_bytes (sender_public_key a) = pk_bytes (sender_public_key b)"
    and rest: "enc (tx_data a) @ ?tail a = enc (tx_data b) @ ?tail b"
    by auto
  moreover have "length (?tail a) = length (?tail b)"
    by simp
  ultimately have "enc (tx_data a) = enc (tx_data b)" "?tail a = ?tail b"
    by (meson append_eq_append_conv)+
  with pk show ?thesis
    by (auto simp: to_be_bytes_inj FullPublicKey.expand)
qed

text \<open>
  C34: Within one chain two transactions are equal exactly when they differ in nothing but the
  signature, and equal transactions stand at the same place in the order of the mempool (keys
  have their fixed size, the data encoding is injective and the hashes of the two do not collide).
\<close>

theorem transaction_identity:
  assumes "tx_chain_id a = tx_chain_id b"
    and "length (pk_bytes (sender_public_key a)) = PUBLIC_KEY_SIZE" "length (pk_bytes (sender_public_key b)) = PUBLIC_KEY_SIZE"
    and inj: "\<And>d e. enc d = enc e \<Longrightarrow> d = e"
    and no_collision: "sha256 CR (canonical_bytes enc a) = sha256 CR (canonical_bytes enc b) \<Longrightarrow> canonical_bytes enc a = canonical_bytes enc b"
  shows "(tx_eq CR enc a b \<longleftrightarrow> a = b\<lparr>tx_signature := tx_signature a\<rparr>) \<and> (tx_eq CR enc a b \<longrightarrow> tx_cmp a b = Equal)"
proof -
  have same: "a = b\<lparr>tx_signature := tx_signature a\<rparr>" if "tx_eq CR enc a b"
    using canonical_bytes_inj [of enc a b] no_collision that assms(1-3) inj
    by (intro Transaction.equality) (auto simp: tx_eq_def tx_message_hash_def)
  have "tx_eq CR enc (b\<lparr>tx_signature := s\<rparr>) b" "tx_cmp (b\<lparr>tx_signature := s\<rparr>) b = Equal" for s
    by (simp_all add: tx_eq_def tx_message_hash_def canonical_bytes_def tx_cmp_iff effective_tip_def)
  with same show ?thesis
    by metis
qed

text \<open>A data encoding with the properties asked for: a tag and length-prefixed fields.\<close>

definition sized_bytes :: "bytes \<Rightarrow> bytes" where
  "sized_bytes bs = replicate (length bs) 1 @ 0 # bs"

fun sized_list :: "bytes list \<Rightarrow> bytes" where
  "sized_list [] = [0]"
| "sized_list (b # bs) = 1 # sized_bytes b @ sized_list bs"

fun sample_encoding :: "TransactionData \<Rightarrow> bytes" where
  "sample_encoding (Transfer a n) = 0 # to_be_bytes n @ addr_bytes a"
| "sample_encoding (Stake n) = 1 # to_be_bytes n"
| "sample_encoding (SubmitRollupBatch o' n c z t v p ds) =
     2 # (if t then 1 else 0) # sized_bytes o' @ sized_bytes n @ sized_bytes c @ sized_bytes z @ sized_bytes v @ sized_bytes p @ sized_list ds"
| "sample_encoding (SubmitAggregateRollupBatch i f p n) = 3 # sized_bytes (replicate (unat n) 0) @ sized_bytes i @ sized_bytes f @ p"
| "sample_encoding (DepositToL2 n) = 4 # to_be_bytes n"
| "sample_encoding RegisterAsSequencer = [5]"
| "sample_encoding DeregisterAsSequencer = [6]"
| "sample_encoding (DeployContract c) = 7 # c"
| "sample_encoding (CallContract a c) = 8 # sized_bytes c @ addr_bytes a"
| "sample_encoding (UpdateNetworkIdentity m) = 9 # m"
| "sample_encoding ImAlive = [10]"

lemma sized_bytes_prefix [simp]: "sized_bytes a @ r = sized_bytes b @ s \<longleftrightarrow> a = b \<and> r = s"
proof -
  have len: "length a = length b"
    if "replicate (length a) (1 :: u8) @ 0 # x = replicate (length b) 1 @ 0 # y" for a b x y :: bytes
    using that
  proof (induction a arbitrary: b)
    case Nil
    then show ?case
      by (cases b) auto
  next
    case (Cons z a)
    then show ?case
      by (cases b) auto
  qed
  show ?thesis
    using len [of a "a @ r" b "b @ s"] by (auto simp: sized_bytes_def)
qed

lemma sized_list_inj [simp]: "sized_list a = sized_list b \<longleftrightarrow> a = b"
proof (induction a arbitrary: b)
  case Nil
  then show ?case
    by (cases b) auto
next
  case (Cons x a)
  then show ?case
    by (cases b) auto
qed

lemma sample_encoding_inj: "sample_encoding d = sample_encoding e \<Longrightarrow> d = e"
  by (cases d; cases e) (auto simp: to_be_bytes_inj Address.expand word_unat_eq_iff [symmetric] split: if_splits)

definition plain_hash :: crypto_ops where
  "plain_hash = \<lparr>sha256 = id, keccak256 = id, dil_pk_ok = (\<lambda>_. True), dil_sk_ok = (\<lambda>_. True), dil_sig_ok = (\<lambda>_. True),
     dil_sign = (\<lambda>_ m. m), dil_verify = (\<lambda>_ m sig. sig = m), vrf_pk_ok = (\<lambda>_. True), vrf_out_ok = (\<lambda>_. True),
     vrf_proof_ok = (\<lambda>_. True), vrf_sign = (\<lambda>_ _ m. (m, m)), vrf_verify = (\<lambda>_ _ m out prf. out = m \<and> prf = m)\<rparr>"

definition sample_tx :: "u64 \<Rightarrow> bytes \<Rightarrow> Transaction" where
  "sample_tx n s = \<lparr>sender_public_key = pk_default, tx_data = Stake 10, tx_nonce = n, max_fee_per_gas = 30,
     max_priority_fee_per_gas = 5, tx_signature = s, tx_chain_id = ''evice''\<rparr>"

theorem transaction_identity_witness:
  "tx_eq plain_hash sample_encoding (sample_tx 1 [1]) (sample_tx 1 [2]) \<and> tx_cmp (sample_tx 1 [1]) (sample_tx 1 [2]) = Equal \<and>
   \<not> tx_eq plain_hash sample_encoding (sample_tx 1 [1]) (sample_tx 2 [1])"
  using transaction_identity [of "sample_tx 1 [1]" "sample_tx 1 [2]" sample_encoding plain_hash]
    transaction_identity [of "sample_tx 1 [1]" "sample_tx 2 [1]" sample_encoding plain_hash] sample_encoding_inj
  by (simp add: sample_tx_def plain_hash_def pk_default_def)

section \<open>Across chains\<close>

text \<open>
  The chain id is hashed without its length.  With the variable-length integers of bincode, in
  which \<^verbatim>\<open>Stake\<close> of 10 is the bytes 1, 10 and \<^verbatim>\<open>ImAlive\<close> the byte 10, two different transactions
  have the same hash and so count as equal: the first byte of the key moves into the chain id.
\<close>

lemma chain_id_ambiguous:
  assumes "enc (Stake 10) = [1, 10]" "enc ImAlive = [10]"
    and a: "a = \<lparr>sender_public_key = FullPublicKey (of_char c # pk), tx_data = Stake 10, tx_nonce = n, max_fee_per_gas = f,
      max_priority_fee_per_gas = p, tx_signature = s, tx_chain_id = chain\<rparr>"
    and b: "b = \<lparr>sender_public_key = FullPublicKey (pk @ [1]), tx_data = ImAlive, tx_nonce = n, max_fee_per_gas = f,
      max_priority_fee_per_gas = p, tx_signature = s', tx_chain_id = chain @ [c]\<rparr>"
  shows "tx_eq CR enc a b" "tx_data a \<noteq> tx_data b"
    "length (pk_bytes (sender_public_key a)) = length (pk_bytes (sender_public_key b))"
  using assms(1,2) by (simp_all add: a b tx_eq_def tx_message_hash_def canonical_bytes_def)

end
