(* ===== verification/Node_Services.thy ===== *)
theory Node_Services
  imports Trading_Service Transactions
begin

text \<open>
  The rest of \<^verbatim>\<open>zkapp/node/src/main.rs\<close> around the trading service: reading the genesis and waiting for the
  start time, setting up the settlement engine (\<^verbatim>\<open>settlement.rs\<close>), the bridge from gossiped payloads, and the
  user client (\<^verbatim>\<open>zkapp/user-client\<close>) talking to the service.  Files, JSON, URL, address and key parsing
  and the payload format are arguments.
\<close>

section \<open>Start time\<close>

definition from_file :: "(string \<Rightarrow> bytes option) \<Rightarrow> (bytes \<Rightarrow> Genesis option) \<Rightarrow> string \<Rightarrow> Genesis option" where
  "from_file read_file parse path = Option.bind (read_file path) parse"

definition CONSENSUS_START_DELAY_SECS :: u64 where "CONSENSUS_START_DELAY_SECS = 45"

text \<open>
  The milliseconds to sleep before the services start.  A point in time holds a signed 64-bit number
  of seconds; adding a duration beyond it panics.
\<close>

definition start_wait :: "build_profile \<Rightarrow> nat \<Rightarrow> Genesis \<Rightarrow> rust_panic + nat" where
  "start_wait prof now g =
     bindR (add_u64 prof (genesis_time g) CONSENSUS_START_DELAY_SECS) (\<lambda>t.
       if unat t < 2 ^ 63 then Inr (1000 * unat t - now)
       else Inl (ExpectFailed ''overflow when adding duration to instant''))"

definition node_wait ::
  "build_profile \<Rightarrow> (string \<Rightarrow> bytes option) \<Rightarrow> (bytes \<Rightarrow> Genesis option) \<Rightarrow> nat \<Rightarrow> rust_panic + Genesis \<times> nat" where
  "node_wait prof read_file parse now =
     (case from_file read_file parse ''genesis.json'' of
        None \<Rightarrow> Inl (ExpectFailed ''File genesis.json tidak ditemukan atau tidak valid.'')
      | Some g \<Rightarrow> bindR (start_wait prof now g) (\<lambda>ms. Inr (g, ms)))"

text \<open>Nodes with one genesis start together: none before the target, and all that came early at it.\<close>

lemma start_wait_together:
  assumes "unat (genesis_time g) + 45 < 2 ^ 63"
  shows "\<exists>ms. start_wait prof now g = Inr ms \<and> now + ms = max now (1000 * (unat (genesis_time g) + 45))"
proof -
  have "unat (genesis_time g + 45) = unat (genesis_time g) + 45"
    using assms by (subst unat_add_lem [THEN iffD1]) simp_all
  with assms show ?thesis
    by (simp add: start_wait_def add_u64_def CONSENSUS_START_DELAY_SECS_def panic_simps max_def)
qed

section \<open>Settlement engine\<close>

record ('url, 'key) SettlementEngine =
  st_url :: 'url
  st_signer :: 'key
  st_contract :: evm_address

definition settlement_engine_new ::
  "(string \<Rightarrow> 'url option) \<Rightarrow> (string \<Rightarrow> evm_address option) \<Rightarrow> (string \<Rightarrow> 'key option) \<Rightarrow> string \<Rightarrow> string \<Rightarrow> string \<Rightarrow>
     rust_panic + ('url, 'key) SettlementEngine" where
  "settlement_engine_new parse_url parse_addr parse_key l1_rpc_url priv contract_address =
     (case parse_url l1_rpc_url of
        None \<Rightarrow> Inl (ExpectFailed ''Format L1_RPC_URL tidak valid'')
      | Some url \<Rightarrow> (case parse_addr contract_address of
          None \<Rightarrow> Inl (ExpectFailed ''Format Contract Address tidak valid'')
        | Some addr \<Rightarrow> (case parse_key priv of
            None \<Rightarrow> Inl (ExpectFailed ''Format Private Key tidak valid'')
          | Some key \<Rightarrow> Inr \<lparr>st_url = url, st_signer = key, st_contract = addr\<rparr>)))"

definition or_default :: "(string \<Rightarrow> string option) \<Rightarrow> string \<Rightarrow> string \<Rightarrow> string" where
  "or_default env name d = (case env name of None \<Rightarrow> d | Some v \<Rightarrow> v)"

definition settlement_from_env ::
  "(string \<Rightarrow> 'url option) \<Rightarrow> (string \<Rightarrow> evm_address option) \<Rightarrow> (string \<Rightarrow> 'key option) \<Rightarrow> (string \<Rightarrow> string option) \<Rightarrow>
     rust_panic + ('url, 'key) SettlementEngine" where
  "settlement_from_env parse_url parse_addr parse_key env =
     settlement_engine_new parse_url parse_addr parse_key
       (or_default env ''L1_RPC_URL'' ''http://127.0.0.1:8545'')
       (or_default env ''SEQUENCER_PRIVATE_KEY'' ''0xac0974bec39a17e36ba4a6b4d238ff944bacb478cbed5efcae784d7bf4f2ff80'')
       (or_default env ''ROLLUP_CONTRACT_ADDRESS'' ''0x5FbDB2315678afecb367f032d93F642f64180aa3'')"

text \<open>It comes up exactly when all three settings can be read.\<close>

lemma settlement_from_env_up:
  "(\<exists>s. settlement_from_env pu pa pk env = Inr s) \<longleftrightarrow>
     pu (or_default env ''L1_RPC_URL'' ''http://127.0.0.1:8545'') \<noteq> None \<and>
     pa (or_default env ''ROLLUP_CONTRACT_ADDRESS'' ''0x5FbDB2315678afecb367f032d93F642f64180aa3'') \<noteq> None \<and>
     pk (or_default env ''SEQUENCER_PRIVATE_KEY'' ''0xac0974bec39a17e36ba4a6b4d238ff944bacb478cbed5efcae784d7bf4f2ff80'') \<noteq> None"
  by (simp add: settlement_from_env_def settlement_engine_new_def split: option.split)

section \<open>Bridge from consensus to the engine\<close>

datatype bridge_log = TransactionFrom Address | CallData nat | KindIgnored | NotATransaction

text \<open>What the bridge logs for a message; \<open>info\<close> says whether lines of that level are written.\<close>

fun bridge_message ::
  "bool \<Rightarrow> crypto_ops \<Rightarrow> (bytes \<Rightarrow> Transaction option) \<Rightarrow> ChainMessage \<Rightarrow> rust_panic + bridge_log list" where
  "bridge_message info CR dec (NewPayload p) =
     (case dec (payload_bytes p) of
        None \<Rightarrow> Inr [NotATransaction]
      | Some tx \<Rightarrow>
          if info then bindR (tx_from CR tx) (\<lambda>a.
            Inr [TransactionFrom a, case tx_data tx of CallContract _ call_data \<Rightarrow> CallData (length call_data) | _ \<Rightarrow> KindIgnored])
          else Inr [])"
| "bridge_message info CR dec (NewConsensusMessage _) = Inr []"

section \<open>User client\<close>

definition user_intent :: PlaceOrderRequest where
  "user_intent = \<lparr>po_user_id = 12345, po_order_id = 99901, po_side = 1, po_price = 9100, po_quantity = 10\<rparr>"

definition fill_line :: "TradeExecution \<Rightarrow> string" where
  "fill_line f = ''FILLED: Matched with Order #'' @ show_u64 (te_maker_order_id f) @ '' | Price: '' @ show_u64 (te_price f) @
     '' | Qty: '' @ show_u64 (te_quantity f)"

definition client_report :: "PlaceOrderResponse \<Rightarrow> string list" where
  "client_report r =
     (if pr_success r then [''Trade Successful!'', ''Engine Message: '' @ pr_message r] @ map fill_line (pr_fills r)
      else [''Trade Failed: '' @ pr_message r])"

text \<open>The client against the service: the lines after the order was sent, or the status it ends with.\<close>

definition user_client ::
  "build_profile \<Rightarrow> (Order, 's) slab_ops \<Rightarrow> (LogEntry \<Rightarrow> bytes list) \<Rightarrow> nat \<Rightarrow> (nat \<Rightarrow> nat \<Rightarrow> nat \<times> nat) \<Rightarrow>
     's MarketProcessor option \<Rightarrow> 's MarketProcessor option \<times> (Status + string list)" where
  "user_client prof SO encw now io nd =
     (case rpc_place_limit_order prof SO encw now io user_intent nd of
        (nd', Inl e) \<Rightarrow> (nd', Inl e)
      | (nd', Inr r) \<Rightarrow> (nd', Inr (client_report r)))"

text \<open>
  The client always reports a successful trade, with one line for each trade of the specification:
  also when there is none and the order came to rest.
\<close>

lemma user_client_lines:
  assumes "order_slab SO" "book_inv SO (mp_book mp)"
  shows "\<exists>mp' evs msg. user_client prof SO encw now io (Some mp) =
      (Some mp', Inr (''Trade Successful!'' # (''Engine Message: '' @ msg) # map fill_line (bundle_fills evs))) \<and>
    spec_place 99901 12345 Bid 9100 10 (abs_of SO (mp_book mp)) = (abs_of SO (mp_book mp'), evs)"
proof -
  have "proto_side (po_side user_intent) = Some Bid"
    by (simp add: user_intent_def proto_side_def)
  from rpc_place_answer [OF assms this, of prof encw now io] obtain mp' evs resp where
    "rpc_place_limit_order prof SO encw now io user_intent (Some mp) = (Some mp', Inr resp)"
    "spec_place 99901 12345 Bid 9100 10 (abs_of SO (mp_book mp)) = (abs_of SO (mp_book mp'), evs)"
    "pr_fills resp = bundle_fills evs" "pr_success resp"
    by (auto simp: user_intent_def)
  then show ?thesis
    by (auto simp: user_client_def client_report_def)
qed

end
