(* ===== verification/Intent_Air.thy ===== *)
theory Intent_Air
  imports Prelude
begin

text \<open>
  The arithmetic constraints of the intent rollup (\<^verbatim>\<open>zkapp/zk-prover/src/lib.rs\<close>), over any
  commutative ring in the place of the field of the proof system.  The proof system itself is not
  modelled: a trace is accepted when every constraint holds on every pair of neighbouring rows.
\<close>

section \<open>The constraints\<close>

record 'f IntentRollupCols =
  col_intent_id :: 'f
  user_input_amount :: 'f
  user_min_output :: 'f
  solver_actual_output :: 'f
  user_balance :: 'f
  solver_balance :: 'f

definition air_width :: nat where "air_width = 6"

text \<open>The equations asserted by \<^verbatim>\<open>eval\<close> on a row and its successor.\<close>

definition air_eval :: "'f::comm_ring_1 IntentRollupCols \<Rightarrow> 'f IntentRollupCols \<Rightarrow> ('f \<times> 'f) list" where
  "air_eval local next =
     [(user_balance next + user_input_amount local, user_balance local + solver_actual_output local),
      (solver_balance next + solver_actual_output local, solver_balance local + user_input_amount local)]"

fun air_accepts :: "'f::comm_ring_1 IntentRollupCols list \<Rightarrow> bool" where
  "air_accepts (local # next # rows) \<longleftrightarrow> list_all (\<lambda>(a, b). a = b) (air_eval local next) \<and> air_accepts (next # rows)"
| "air_accepts _ \<longleftrightarrow> True"

section \<open>What an accepted trace says\<close>

definition net_output :: "'f::comm_ring_1 IntentRollupCols list \<Rightarrow> 'f" where
  "net_output rows = sum_list (map (\<lambda>r. solver_actual_output r - user_input_amount r) rows)"

lemma net_output_simps [simp]:
  "net_output [] = 0"
  "net_output (r # rows) = solver_actual_output r - user_input_amount r + net_output rows"
  by (simp_all add: net_output_def)

lemma air_step:
  "list_all (\<lambda>(a, b). a = b) (air_eval r s) \<longleftrightarrow>
     user_balance s = user_balance r + (solver_actual_output r - user_input_amount r) \<and>
     solver_balance s = solver_balance r - (solver_actual_output r - user_input_amount r)"
  by (auto simp: air_eval_def algebra_simps)

lemma air_accepts_balances:
  "air_accepts (r # rows) \<longleftrightarrow>
     (\<forall>k < length (r # rows).
        user_balance ((r # rows) ! k) = user_balance r + net_output (take k (r # rows)) \<and>
        solver_balance ((r # rows) ! k) = solver_balance r - net_output (take k (r # rows)))"
proof (induction rows arbitrary: r)
  case (Cons s rows)
  let ?d = "solver_actual_output r - user_input_amount r"
  show ?case
  proof (cases "user_balance s = user_balance r + ?d \<and> solver_balance s = solver_balance r - ?d")
    case True
    then show ?thesis
      unfolding air_accepts.simps Cons.IH air_step by (simp add: All_less_Suc2 add.assoc diff_diff_eq)
  next
    case False
    then show ?thesis
      unfolding air_accepts.simps air_step by (auto simp: All_less_Suc2)
  qed
qed simp

lemma air_accepts_min_output:
  "air_accepts (map (\<lambda>(r, m). r\<lparr>user_min_output := m\<rparr>) (zip rows ms)) \<longleftrightarrow> air_accepts (take (length ms) rows)"
proof (induction rows arbitrary: ms)
  case (Cons r rows)
  show ?case
  proof (cases ms)
    case ms: (Cons m ms')
    from Cons.IH [of ms'] show ?thesis
      unfolding ms by (cases rows; cases ms') (auto simp: air_eval_def)
  qed simp
qed simp

text \<open>
  C31: A trace is accepted exactly when in every row the balance of the user is the initial one
  plus the outputs received minus the inputs given up to there, and the balance of the solver the
  initial one minus the same: value is conserved.  The minimum output the user asked for is in no
  constraint: with any other values in that column the trace is accepted as well.
\<close>

theorem intent_air_exact:
  assumes "length ms = length (r # rows)"
  shows "(air_accepts (r # rows) \<longleftrightarrow>
      (\<forall>k < length (r # rows).
         user_balance ((r # rows) ! k) = user_balance r + net_output (take k (r # rows)) \<and>
         solver_balance ((r # rows) ! k) = solver_balance r - net_output (take k (r # rows)))) \<and>
    (air_accepts (map (\<lambda>(r, m). r\<lparr>user_min_output := m\<rparr>) (zip (r # rows) ms)) \<longleftrightarrow> air_accepts (r # rows))"
  using air_accepts_balances air_accepts_min_output [of "r # rows" ms] assms by auto

definition sample_trace :: "int IntentRollupCols list" where
  "sample_trace =
     [\<lparr>col_intent_id = 1, user_input_amount = 100, user_min_output = 90, solver_actual_output = 1, user_balance = 100, solver_balance = 500\<rparr>,
      \<lparr>col_intent_id = 0, user_input_amount = 0, user_min_output = 0, solver_actual_output = 0, user_balance = 1, solver_balance = 599\<rparr>]"

text \<open>A user who asked for at least 90 and got 1.\<close>

theorem intent_air_exact_witness:
  "air_accepts sample_trace \<and> solver_actual_output (hd sample_trace) < user_min_output (hd sample_trace)"
  using intent_air_exact [of "[0, 0]" "hd sample_trace" "tl sample_trace"]
  by (simp add: sample_trace_def All_less_Suc2 eval_nat_numeral)

end
