(* ===== verification/Zk_Core.thy ===== *)
theory Zk_Core
  imports Seq_Types Texts "HOL-Library.Monad_Syntax"
begin

text \<open>
  The addresses and withdrawal proofs shared with the circuits (\<^verbatim>\<open>zkapp/zk-core/src/lib.rs\<close>,
  \<^verbatim>\<open>borsh_helpers.rs\<close>).  Field elements and Merkle paths belong to the arkworks crates and their
  encodings are arguments, as is the borsh encoding of byte vectors; a reader is the list of the
  bytes still to be read.
\<close>

section \<open>Addresses\<close>

definition address_fmt :: "Address \<Rightarrow> string" where
  "address_fmt a = ''0x'' @ hex_text (addr_bytes a)"

definition address_deserialize :: "bytes \<Rightarrow> Address option" where
  "address_deserialize bs = (if length bs = ADDRESS_SIZE then Some (Address bs) else None)"

section \<open>Withdrawal proofs\<close>

record 'f Path =
  leaf_sibling_hash :: 'f
  auth_path :: "'f list"
  leaf_index :: nat

record 'f ark_ops =
  fr_serialize :: "'f \<Rightarrow> bytes option"
  fr_deserialize :: "bytes \<Rightarrow> ('f \<times> bytes) option"
  path_serialize :: "'f Path \<Rightarrow> bytes option"
  path_deserialize :: "bytes \<Rightarrow> ('f Path \<times> bytes) option"
  borsh_vec :: "bytes \<Rightarrow> bytes option"
  borsh_read_vec :: "bytes \<Rightarrow> (bytes \<times> bytes) option"
  fr_be_bytes :: "'f \<Rightarrow> bytes"

record 'f WithdrawalProof =
  l2_state_root :: bytes
  leaf_data :: "'f \<times> 'f"
  merkle_path :: "'f Path"

definition serialize_leaf :: "'f ark_ops \<Rightarrow> 'f \<times> 'f \<Rightarrow> bytes option" where
  "serialize_leaf A leaf = do {
     a \<leftarrow> fr_serialize A (fst leaf);
     b \<leftarrow> fr_serialize A (snd leaf);
     Some (a @ b)
   }"

definition deserialize_leaf :: "'f ark_ops \<Rightarrow> bytes \<Rightarrow> (('f \<times> 'f) \<times> bytes) option" where
  "deserialize_leaf A reader = do {
     (a, reader) \<leftarrow> fr_deserialize A reader;
     (b, reader) \<leftarrow> fr_deserialize A reader;
     Some ((a, b), reader)
   }"

text \<open>The path is read from all that is left, and what follows it is dropped.\<close>

definition deserialize_path :: "'f ark_ops \<Rightarrow> bytes \<Rightarrow> ('f Path \<times> bytes) option" where
  "deserialize_path A reader = map_option (\<lambda>(p, _). (p, [])) (path_deserialize A reader)"

definition proof_serialize :: "'f ark_ops \<Rightarrow> 'f WithdrawalProof \<Rightarrow> bytes option" where
  "proof_serialize A w = do {
     root \<leftarrow> borsh_vec A (l2_state_root w);
     leaf \<leftarrow> serialize_leaf A (leaf_data w);
     path \<leftarrow> path_serialize A (merkle_path w);
     Some (root @ leaf @ path)
   }"

definition proof_deserialize :: "'f ark_ops \<Rightarrow> bytes \<Rightarrow> ('f WithdrawalProof \<times> bytes) option" where
  "proof_deserialize A reader = do {
     (root, reader) \<leftarrow> borsh_read_vec A reader;
     (leaf, reader) \<leftarrow> deserialize_leaf A reader;
     (path, reader) \<leftarrow> deserialize_path A reader;
     Some (\<lparr>l2_state_root = root, leaf_data = leaf, merkle_path = path\<rparr>, reader)
   }"

definition proof_eq :: "'f WithdrawalProof \<Rightarrow> 'f WithdrawalProof \<Rightarrow> bool" where
  "proof_eq v w \<longleftrightarrow> l2_state_root v = l2_state_root w \<and> leaf_data v = leaf_data w \<and>
     auth_path (merkle_path v) = auth_path (merkle_path w)"

text \<open>What is fed to the hasher.\<close>

definition proof_hash_input :: "'f ark_ops \<Rightarrow> 'f WithdrawalProof \<Rightarrow> bytes list" where
  "proof_hash_input A w =
     [l2_state_root w, fr_be_bytes A (fst (leaf_data w)), fr_be_bytes A (snd (leaf_data w))] @
     map (fr_be_bytes A) (auth_path (merkle_path w))"

section \<open>Facts\<close>

lemma address_roundtrip: "length (addr_bytes a) = ADDRESS_SIZE \<Longrightarrow> address_deserialize (addr_bytes a) = Some a"
  by (simp add: address_deserialize_def)

text \<open>The encodings can be read back in front of any other bytes, and a vector cannot be read from nothing.\<close>

locale ark_codec =
  fixes A :: "'f ark_ops"
  assumes fr_codec: "fr_serialize A f = Some bs \<Longrightarrow> fr_deserialize A (bs @ rest) = Some (f, rest)"
    and path_codec: "path_serialize A p = Some bs \<Longrightarrow> path_deserialize A (bs @ rest) = Some (p, rest)"
    and vec_codec: "borsh_vec A v = Some bs \<Longrightarrow> borsh_read_vec A (bs @ rest) = Some (v, rest)"
    and vec_empty: "borsh_read_vec A [] = None"
begin

lemma leaf_roundtrip: "serialize_leaf A leaf = Some bs \<Longrightarrow> deserialize_leaf A (bs @ rest) = Some (leaf, rest)"
  by (cases leaf) (auto simp: serialize_leaf_def deserialize_leaf_def fr_codec split: Option.bind_splits)

text \<open>A proof is read back, together with everything that follows it.\<close>

lemma proof_roundtrip:
  assumes "proof_serialize A w = Some bs"
  shows "proof_deserialize A (bs @ rest) = Some (w, [])"
  using assms
  by (auto simp: proof_serialize_def proof_deserialize_def deserialize_path_def vec_codec leaf_roundtrip path_codec
      split: Option.bind_splits)

text \<open>So of two proofs in a row the second, like whatever else follows, cannot be read.\<close>

lemma second_proof_lost:
  assumes "proof_serialize A v = Some bs"
  shows "Option.bind (proof_deserialize A (bs @ cs)) (\<lambda>(p, reader). proof_deserialize A reader) = None"
  unfolding proof_roundtrip [OF assms] by (simp add: proof_deserialize_def vec_empty)

end

text \<open>Field elements as 64-bit words, vectors after their length.\<close>

definition read_sized :: "bytes \<Rightarrow> (bytes \<times> bytes) option" where
  "read_sized bs =
     (if length bs < 8 then None
      else let n = unat (from_be_bytes (take 8 bs)); rest = drop 8 bs
           in if length rest < n then None else Some (take n rest, drop n rest))"

definition word_codec :: "u64 ark_ops" where
  "word_codec =
     \<lparr>fr_serialize = (\<lambda>w. Some (to_be_bytes w)),
      fr_deserialize = (\<lambda>bs. if length bs < 8 then None else Some (from_be_bytes (take 8 bs), drop 8 bs)),
      path_serialize = (\<lambda>p. if auth_path p = [] \<and> leaf_index p < 2 ^ 64
         then Some (to_be_bytes (leaf_sibling_hash p) @ to_be_bytes (of_nat (leaf_index p))) else None),
      path_deserialize = (\<lambda>bs. if length bs < 16 then None
         else Some (\<lparr>leaf_sibling_hash = from_be_bytes (take 8 bs), auth_path = [], leaf_index = unat (from_be_bytes (take 8 (drop 8 bs)))\<rparr>, drop 16 bs)),
      borsh_vec = (\<lambda>v. if length v < 2 ^ 64 then Some (to_be_bytes (of_nat (length v)) @ v) else None),
      borsh_read_vec = read_sized,
      fr_be_bytes = to_be_bytes\<rparr>"

interpretation wc: ark_codec word_codec
  by unfold_locales
    (auto simp: word_codec_def read_sized_def unat_of_nat Let_def split: if_splits)

text \<open>Equal proofs are hashed alike, but may differ in the sibling of the leaf and its index.\<close>

lemma proof_eq_hash: "proof_eq v w \<Longrightarrow> proof_hash_input A v = proof_hash_input A w"
  by (simp add: proof_eq_def proof_hash_input_def)

lemma proof_eq_ignores_leaf_position:
  "proof_eq w (w\<lparr>merkle_path := (merkle_path w)\<lparr>leaf_sibling_hash := h, leaf_index := i\<rparr>\<rparr>)"
  by (simp add: proof_eq_def)

end
