(* ===== verification/Simulator.thy ===== *)
theory Simulator
  imports Texts
begin

text \<open>
  The simulator of contract calls on a fork (\<^verbatim>\<open>zkapp/simulator/src/lib.rs\<close>, \<^verbatim>\<open>alloy_db.rs\<close>).  The virtual
  machine and its cached database belong to revm and are an argument, with the database as an
  abstract state that every operation passes on; so is the answer of the remote node.
\<close>

section \<open>The machine\<close>

record AccountInfo =
  ai_balance :: u256
  ai_nonce :: u64
  ai_code_hash :: bytes
  ai_code :: "bytes option"

datatype TxKind = TxCall evm_address | TxCreate

record TxEnv =
  tx_caller :: evm_address
  tx_kind :: TxKind
  tx_amount :: u256
  tx_input :: bytes
  tx_gas_limit :: u64
  tx_gas_price :: nat
  tx_env_nonce :: u64

datatype Output = CallOutput bytes | CreateOutput bytes "evm_address option"

datatype ExecutionResult = Success u64 Output | Revert bytes | Halt string

record 'd evm_ops =
  load_account :: "evm_address \<Rightarrow> 'd \<Rightarrow> 'd \<times> (string + AccountInfo)"
  insert_account_info :: "evm_address \<Rightarrow> AccountInfo \<Rightarrow> 'd \<Rightarrow> 'd"
  transact_commit :: "TxEnv \<Rightarrow> 'd \<Rightarrow> 'd \<times> (string + ExecutionResult)"
  transact :: "TxEnv \<Rightarrow> 'd \<Rightarrow> 'd \<times> (string + ExecutionResult)"
  default_tx :: TxEnv
  keccak_empty :: bytes

datatype sim_error =
    DbError string | EvmError string | EvmErrorAt nat string | EmptyBundle | TxReverted | TxHalted | RevertedWith bytes | HaltedWith string

type_synonym ('d, 'a) sim = "'d \<times> (rust_panic + sim_error + 'a)"

section \<open>The remote database\<close>

text \<open>The answers of the node to the three queries, in this order; \<open>code_hash\<close> hashes the code.\<close>

definition basic_ref ::
  "'d evm_ops \<Rightarrow> (bytes \<Rightarrow> bytes) \<Rightarrow> string + u256 \<Rightarrow> string + u64 \<Rightarrow> string + bytes \<Rightarrow> string + AccountInfo option" where
  "basic_ref M code_hash balance nonce code =
     (case balance of Inl e \<Rightarrow> Inl e | Inr bal \<Rightarrow>
      case nonce of Inl e \<Rightarrow> Inl e | Inr n \<Rightarrow>
      case code of Inl e \<Rightarrow> Inl e | Inr c \<Rightarrow>
        Inr (Some \<lparr>ai_balance = bal, ai_nonce = n,
               ai_code_hash = (if c = [] then keccak_empty M else code_hash c), ai_code = (if c = [] then None else Some c)\<rparr>))"

section \<open>Accounts\<close>

definition set_code :: "'d evm_ops \<Rightarrow> evm_address \<Rightarrow> bytes \<Rightarrow> 'd \<Rightarrow> rust_panic + 'd" where
  "set_code M a code d =
     (case load_account M a d of
        (d1, Inl e) \<Rightarrow> Inl (ExpectFailed e)
      | (d1, Inr info) \<Rightarrow> Inr (insert_account_info M a (info\<lparr>ai_code := Some code\<rparr>) d1))"

definition set_balance :: "'d evm_ops \<Rightarrow> evm_address \<Rightarrow> u256 \<Rightarrow> 'd \<Rightarrow> 'd" where
  "set_balance M a amount d =
     (let (d1, res) = load_account M a d;
          info = (case res of
             Inr info \<Rightarrow> info
           | Inl _ \<Rightarrow> \<lparr>ai_balance = amount, ai_nonce = 0, ai_code_hash = keccak_empty M, ai_code = None\<rparr>)
      in insert_account_info M a (info\<lparr>ai_balance := amount\<rparr>) d1)"

definition get_nonce :: "'d evm_ops \<Rightarrow> evm_address \<Rightarrow> 'd \<Rightarrow> 'd \<times> (sim_error + u64)" where
  "get_nonce M a d = (case load_account M a d of (d1, Inl e) \<Rightarrow> (d1, Inl (DbError e)) | (d1, Inr info) \<Rightarrow> (d1, Inr (ai_nonce info)))"

definition get_balance :: "'d evm_ops \<Rightarrow> evm_address \<Rightarrow> 'd \<Rightarrow> 'd \<times> (sim_error + u256)" where
  "get_balance M a d = (case load_account M a d of (d1, Inl e) \<Rightarrow> (d1, Inl (DbError e)) | (d1, Inr info) \<Rightarrow> (d1, Inr (ai_balance info)))"

section \<open>Simulated transactions\<close>

text \<open>The difference of two balances read as signed 256-bit numbers.\<close>

definition balance_change :: "build_profile \<Rightarrow> u256 \<Rightarrow> u256 \<Rightarrow> rust_panic + u256" where
  "balance_change prof post pre =
     (if sint (post - pre) = sint post - sint pre then Inr (post - pre)
      else case prof of Debug \<Rightarrow> Inl ArithmeticOverflow | Release \<Rightarrow> Inr (post - pre))"

record SimOutput =
  so_gas_used :: u64
  eth_balance_change :: u256

definition simulate_tx ::
  "build_profile \<Rightarrow> 'd evm_ops \<Rightarrow> evm_address \<Rightarrow> evm_address \<Rightarrow> u256 \<Rightarrow> bytes \<Rightarrow> 'd \<Rightarrow> ('d, SimOutput) sim" where
  "simulate_tx prof M from to amount input d =
     (case get_balance M from d of (d1, Inl e) \<Rightarrow> (d1, Inr (Inl e)) | (d1, Inr pre) \<Rightarrow>
      case get_nonce M from d1 of (d2, Inl e) \<Rightarrow> (d2, Inr (Inl e)) | (d2, Inr n) \<Rightarrow>
      case transact_commit M ((default_tx M)\<lparr>tx_caller := from, tx_kind := TxCall to, tx_amount := amount, tx_input := input,
             tx_gas_limit := 500000, tx_gas_price := 20000000000, tx_env_nonce := n\<rparr>) d2 of
        (d3, Inl e) \<Rightarrow> (d3, Inr (Inl (EvmError e)))
      | (d3, Inr (Success gas _)) \<Rightarrow>
          (case get_balance M from d3 of (d4, Inl e) \<Rightarrow> (d4, Inr (Inl e)) | (d4, Inr post) \<Rightarrow>
             (d4, bindR (balance_change prof post pre) (\<lambda>diff. Inr (Inr \<lparr>so_gas_used = gas, eth_balance_change = diff\<rparr>))))
      | (d3, Inr (Revert _)) \<Rightarrow> (d3, Inr (Inl TxReverted))
      | (d3, Inr (Halt _)) \<Rightarrow> (d3, Inr (Inl TxHalted)))"

definition call_raw :: "'d evm_ops \<Rightarrow> TxEnv \<Rightarrow> 'd \<Rightarrow> 'd \<times> (sim_error + bytes)" where
  "call_raw M tx d =
     (case transact M tx d of
        (d1, Inl e) \<Rightarrow> (d1, Inl (EvmError e))
      | (d1, Inr (Success _ (CallOutput bs))) \<Rightarrow> (d1, Inr bs)
      | (d1, Inr (Success _ (CreateOutput bs _))) \<Rightarrow> (d1, Inr bs)
      | (d1, Inr (Revert out)) \<Rightarrow> (d1, Inl (RevertedWith out))
      | (d1, Inr (Halt reason)) \<Rightarrow> (d1, Inl (HaltedWith reason)))"

definition simulate_view_call :: "'d evm_ops \<Rightarrow> evm_address \<Rightarrow> evm_address \<Rightarrow> bytes \<Rightarrow> 'd \<Rightarrow> 'd \<times> (sim_error + bytes \<times> u64)" where
  "simulate_view_call M from to calldata d =
     (case transact M ((default_tx M)\<lparr>tx_caller := from, tx_kind := TxCall to, tx_input := calldata, tx_gas_limit := 1000000,
             tx_gas_price := 1, tx_amount := 0\<rparr>) d of
        (d1, Inl e) \<Rightarrow> (d1, Inl (EvmError e))
      | (d1, Inr (Success gas (CallOutput bs))) \<Rightarrow> (d1, Inr (bs, gas))
      | (d1, Inr (Success gas (CreateOutput bs _))) \<Rightarrow> (d1, Inr (bs, gas))
      | (d1, Inr (Revert out)) \<Rightarrow> (d1, Inl (RevertedWith out))
      | (d1, Inr (Halt reason)) \<Rightarrow> (d1, Inl (HaltedWith reason)))"

section \<open>Bundles\<close>

record BundleOutput =
  total_gas_used :: u64
  victim_reverted :: bool
  victim_revert_reason :: "string option"
  attacker_profit :: u256
  created_address :: "evm_address option"
  created_code :: "bytes option"

record bundle_acc =
  acc_gas :: u64
  acc_reverted :: bool
  acc_reason :: "string option"
  acc_created :: "(evm_address \<times> bytes) option"

text \<open>
  One transaction of a bundle after it ran: the gas of a success is added and a created contract
  noted; a failure is noted when it is the second transaction, the victim's.
\<close>

fun bundle_result :: "build_profile \<Rightarrow> nat \<Rightarrow> ExecutionResult \<Rightarrow> bundle_acc \<Rightarrow> rust_panic + bundle_acc" where
  "bundle_result prof i (Success gas out) acc =
     bindR (add_u64 prof (acc_gas acc) gas) (\<lambda>g.
       let acc1 = acc\<lparr>acc_gas := g\<rparr>
       in Inr (case out of CreateOutput bs (Some a) \<Rightarrow> acc1\<lparr>acc_created := Some (a, bs)\<rparr> | _ \<Rightarrow> acc1))"
| "bundle_result prof i (Revert out) acc =
     Inr (if i = 1 then acc\<lparr>acc_reverted := True, acc_reason := Some (''Reverted hex: '' @ hex_text out)\<rparr> else acc)"
| "bundle_result prof i (Halt reason) acc =
     Inr (if i = 1 then acc\<lparr>acc_reverted := True, acc_reason := Some (''Halted: '' @ reason)\<rparr> else acc)"

text \<open>After a call the account called is loaded, which only fills the cache.\<close>

fun touch :: "'d evm_ops \<Rightarrow> TxKind \<Rightarrow> ExecutionResult \<Rightarrow> 'd \<Rightarrow> 'd" where
  "touch M (TxCall to) (Success _ _) d = fst (load_account M to d)"
| "touch M _ _ d = d"

fun sim_bundle_loop :: "build_profile \<Rightarrow> 'd evm_ops \<Rightarrow> nat \<Rightarrow> TxEnv list \<Rightarrow> bundle_acc \<Rightarrow> 'd \<Rightarrow> ('d, bundle_acc) sim" where
  "sim_bundle_loop prof M i [] acc d = (d, Inr (Inr acc))"
| "sim_bundle_loop prof M i (tx # txs) acc d =
     (case transact_commit M tx d of
        (d1, Inl e) \<Rightarrow> (d1, Inr (Inl (EvmErrorAt i e)))
      | (d1, Inr res) \<Rightarrow>
          (case bundle_result prof i res acc of
             Inl p \<Rightarrow> (d1, Inl p)
           | Inr acc' \<Rightarrow> sim_bundle_loop prof M (Suc i) txs acc' (touch M (tx_kind tx) res d1)))"

definition bundle_start :: bundle_acc where
  "bundle_start = \<lparr>acc_gas = 0, acc_reverted = False, acc_reason = None, acc_created = None\<rparr>"

definition simulate_bundle :: "build_profile \<Rightarrow> 'd evm_ops \<Rightarrow> TxEnv list \<Rightarrow> 'd \<Rightarrow> ('d, BundleOutput) sim" where
  "simulate_bundle prof M txs d =
     (case txs of [] \<Rightarrow> (d, Inr (Inl EmptyBundle)) | tx # _ \<Rightarrow>
      case get_balance M (tx_caller tx) d of (d1, Inl e) \<Rightarrow> (d1, Inr (Inl e)) | (d1, Inr pre) \<Rightarrow>
      case sim_bundle_loop prof M 0 txs bundle_start d1 of
        (d2, Inl p) \<Rightarrow> (d2, Inl p)
      | (d2, Inr (Inl e)) \<Rightarrow> (d2, Inr (Inl e))
      | (d2, Inr (Inr acc)) \<Rightarrow>
          (case get_balance M (tx_caller tx) d2 of (d3, Inl e) \<Rightarrow> (d3, Inr (Inl e)) | (d3, Inr post) \<Rightarrow>
             (d3, bindR (balance_change prof post pre) (\<lambda>diff. Inr (Inr
               \<lparr>total_gas_used = acc_gas acc, victim_reverted = acc_reverted acc, victim_revert_reason = acc_reason acc,
                attacker_profit = diff, created_address = map_option fst (acc_created acc), created_code = map_option snd (acc_created acc)\<rparr>)))))"

section \<open>What a bundle reports\<close>

text \<open>The results of the transactions of a bundle, one after the other.\<close>

fun executions :: "'d evm_ops \<Rightarrow> TxEnv list \<Rightarrow> 'd \<Rightarrow> ExecutionResult list" where
  "executions M [] d = []"
| "executions M (tx # txs) d =
     (case transact_commit M tx d of
        (d1, Inl e) \<Rightarrow> []
      | (d1, Inr res) \<Rightarrow> res # executions M txs (touch M (tx_kind tx) res d1))"

fun gas_of :: "ExecutionResult \<Rightarrow> nat" where
  "gas_of (Success gas _) = unat gas"
| "gas_of _ = 0"

fun failed :: "ExecutionResult \<Rightarrow> bool" where
  "failed (Success _ _) \<longleftrightarrow> False"
| "failed _ \<longleftrightarrow> True"

lemma bundle_result_exact:
  assumes "unat (acc_gas acc) + gas_of res < 2 ^ 64"
  shows "\<exists>acc'. bundle_result prof i res acc = Inr acc' \<and> unat (acc_gas acc') = unat (acc_gas acc) + gas_of res \<and>
    acc_reverted acc' = (acc_reverted acc \<or> i = 1 \<and> failed res)"
  using assms add_u64_exact [of "acc_gas acc" _ prof]
  by (cases res) (auto simp: Let_def split: Output.split option.split)

lemma sim_bundle_loop_exact:
  assumes "unat (acc_gas acc) + sum_list (map gas_of (executions M txs d)) < 2 ^ 64" "length (executions M txs d) = length txs"
  shows "\<exists>d' acc'. sim_bundle_loop prof M i txs acc d = (d', Inr (Inr acc')) \<and>
    unat (acc_gas acc') = unat (acc_gas acc) + sum_list (map gas_of (executions M txs d)) \<and>
    acc_reverted acc' = (acc_reverted acc \<or> i \<le> 1 \<and> 1 - i < length txs \<and> failed (executions M txs d ! (1 - i)))"
  using assms
proof (induction txs arbitrary: i acc d)
  case (Cons tx txs)
  then obtain d1 res where t: "transact_commit M tx d = (d1, Inr res)"
    by (auto split: prod.splits sum.splits)
  let ?d = "touch M (tx_kind tx) res d1"
  from Cons.prems t bundle_result_exact [of acc res prof i] obtain acc1 where r: "bundle_result prof i res acc = Inr acc1"
    "unat (acc_gas acc1) = unat (acc_gas acc) + gas_of res" "acc_reverted acc1 = (acc_reverted acc \<or> i = 1 \<and> failed res)"
    by auto
  with Cons.prems t Cons.IH [of acc1 ?d "Suc i"] show ?case
    by (auto simp: nth_Cons' not_less_eq_eq)
qed simp

text \<open>
  When the machine takes every transaction and the gas fits 64 bits, a bundle reports the gas of
  its successful transactions, and the victim as reverted exactly when the second one failed.
\<close>

lemma simulate_bundle_report:
  assumes "txs \<noteq> []" "get_balance M (tx_caller (hd txs)) d = (d1, Inr pre)"
    and "length (executions M txs d1) = length txs" "sum_list (map gas_of (executions M txs d1)) < 2 ^ 64"
    and "simulate_bundle prof M txs d = (d2, Inr (Inr out))"
  shows "unat (total_gas_used out) = sum_list (map gas_of (executions M txs d1)) \<and>
    (victim_reverted out \<longleftrightarrow> 1 < length txs \<and> failed (executions M txs d1 ! 1))"
proof -
  obtain tx rest where txs: "txs = tx # rest"
    using assms(1) by (cases txs) auto
  obtain d' acc where "sim_bundle_loop prof M 0 txs bundle_start d1 = (d', Inr (Inr acc))"
    "unat (acc_gas acc) = sum_list (map gas_of (executions M txs d1))"
    "acc_reverted acc = (1 < length txs \<and> failed (executions M txs d1 ! 1))"
    using sim_bundle_loop_exact [of bundle_start M txs d1 prof 0] assms(3,4) by (auto simp: bundle_start_def)
  with assms(2,5) txs show ?thesis
    by (auto simp: simulate_bundle_def bindR_eq_Inr split: prod.splits sum.splits)
qed

end
