(* ===== verification/Spec2Isabelle.thy ===== *)
theory Spec2Isabelle
  imports Rollup Ffi Node_Start Observer Lock_Order Node_Services Transactions Intent_Air Zk_Core Simulator
begin

text \<open>
  A verification development of an application chain: a sequencer network that agrees on batches
  of payloads, a matching engine with a write-ahead log and intent auctions, the services of a node
  around them, and the settlement of resolved intents on a contract.

  \<^bold>\<open>The program.\<close>  Users place, cancel and query orders through gRPC or a C interface.  A single task,
  the market processor, owns the order book: it logs every command, executes it, answers it and
  broadcasts the events; the log rebuilds the book at the next start.  Solvers bid for intents; every
  tick the processor closes the auctions whose time is over and passes the winners to the settlement
  task, which calls the rollup contract.  Independently of that, the consensus engine of a validator
  proposes batches, votes and collects certificates, and the network task carries its messages.

  \<^bold>\<open>Shared.\<close>  \<^verbatim>\<open>Prelude\<close>: panics as values of a sum type, 64-bit arithmetic in the debug and release
  profiles, big-endian bytes, ordered maps, runs of steps and the locale \<^verbatim>\<open>panic_free\<close>.
  \<^verbatim>\<open>Texts\<close>: decimal and hexadecimal texts, UTF-8, JSON values.

  \<^bold>\<open>Matching engine\<close> (\<^verbatim>\<open>zkapp/engine\<close>).
  \<^item> \<^verbatim>\<open>Slab_Store\<close>: the slab crate as an argument, with its laws in the locales \<^verbatim>\<open>slab\<close> and
    \<^verbatim>\<open>order_slab\<close>, and for the examples an instance, a vector of slots with a list of free keys.
  \<^item> \<^verbatim>\<open>Order_Book\<close>: the book of \<^verbatim>\<open>lib.rs\<close> (\<^verbatim>\<open>OrderBook\<close>, \<^verbatim>\<open>place_limit_order\<close> with its matching loop and maker
    phase, \<^verbatim>\<open>cancel_order\<close>, \<^verbatim>\<open>get_depth\<close>).  \<^verbatim>\<open>Order_Book_Spec\<close> is the abstract book, a list of orders per
    side in price-time priority; \<^verbatim>\<open>Order_Book_Props\<close>, \<^verbatim>\<open>Order_Trades\<close> and \<^verbatim>\<open>Order_Cancel\<close> hold the
    invariant and the lemmas on trades and cancellations.  \<^verbatim>\<open>Order_Engine\<close> shows: placement refines
    the abstract book and never panics, conserves quantity and trades fairly; replaying any log is
    safe; what cancellation and depth queries do, and where they go wrong: a cancellation under the id
    of a filled order removes another one when the slab reuses its key.
  \<^item> \<^verbatim>\<open>Wal\<close>: the buffered log of \<^verbatim>\<open>wal.rs\<close> with writes that stop anywhere, and the read loop, by
    recursion on the file.  The relation \<^verbatim>\<open>reads\<close> says what a file decodes to and where decoding stops.
    After the process died, a log that was whole at the start gives the acknowledged entries, up to
    the first entry the encoder failed on; reading ends on every file.
  \<^item> \<^verbatim>\<open>Market_Processor\<close>: \<^verbatim>\<open>processor.rs\<close>, every command, the auctions and the loop.  The book a restart
    recovers, for a log that starts whole or torn; an auction as a specification of its own
    (\<^verbatim>\<open>auction_run\<close>) and that every run, early ticks included, follows it; bundles, freedom from panics.

  \<^bold>\<open>Sequencer\<close> (\<^verbatim>\<open>evice-multi-sequencer\<close>).
  \<^item> \<^verbatim>\<open>Seq_Types\<close>: batches, votes, certificates, keys and what is hashed and signed (\<^verbatim>\<open>lib.rs\<close>,
    \<^verbatim>\<open>crypto.rs\<close>, \<^verbatim>\<open>genesis.rs\<close>, \<^verbatim>\<open>consensus/types.rs\<close>); the primitives are an argument, the locale
    \<^verbatim>\<open>signatures\<close> says what is relied on.
  \<^item> \<^verbatim>\<open>Peer_Book\<close>: peer scores and the address book (\<^verbatim>\<open>p2p/types.rs\<close>), which entry a genesis gives each
    address, also when several of its accounts share one.
  \<^item> \<^verbatim>\<open>Consensus\<close>: \<^verbatim>\<open>consensus/engine.rs\<close> and \<^verbatim>\<open>state.rs\<close>.  Every handler is a chain of tasks, one for each
    critical section under a lock; \<^verbatim>\<open>consensus_run\<close> is any interleaving of the tasks of messages,
    ticks and proposals, \<^verbatim>\<open>exec_tasks\<close> runs one handler alone, and terminates by the rank of a task.
  \<^item> \<^verbatim>\<open>Consensus_Quorum\<close>: counting of signatures and the intersection of quorums.  \<^verbatim>\<open>Consensus_Safety\<close>:
    invariants of all interleavings through the locale \<^verbatim>\<open>task_invariant\<close>.  \<^verbatim>\<open>Consensus_Claims\<close> and
    \<^verbatim>\<open>Consensus_Rounds\<close>: certificates intersect, confirmed batches are authentic, certified and
    confirmed once, quorums confirm, election, the round driver, proposals; and where votes,
    certificates and rounds are not checked enough, so that two batches of a round are confirmed.
  \<^item> \<^verbatim>\<open>Lock_Order\<close>: the locks the tasks of the engine and of the network task take, under fair
    read-write locks: the engine alone never deadlocks, with the answers to batch requests it can.
  \<^item> \<^verbatim>\<open>Keystore\<close>: the key file, saved on a disk that keeps after a crash only what was synced: the save is
    atomic.  \<^verbatim>\<open>Swarm\<close>: the network task
    (\<^verbatim>\<open>p2p/swarm.rs\<close>), its setup and one event of its loop at a time: when it is ready, when it
    panics, and that a batch asked for arrives.  \<^verbatim>\<open>Observer\<close>: the task on a node without an engine,
    with the bounded channel nobody reads: it hangs.

  \<^bold>\<open>Node, contracts and proofs.\<close>
  \<^item> \<^verbatim>\<open>Trading_Service\<close>: gRPC calls, market feed and settlement task (\<^verbatim>\<open>zkapp/node\<close>).  \<^verbatim>\<open>Node_Start\<close>: bootstrap
    genesis, keys and the engine at the start of a node.  \<^verbatim>\<open>Ffi\<close>: the C interface (\<^verbatim>\<open>zkapp/ffi\<close>) with
    the strings it hands out as an explicit heap.  \<^verbatim>\<open>Node_Services\<close>: the start time, the settlement
    engine from its settings, the bridge from gossiped payloads, and the user client
    (\<^verbatim>\<open>zkapp/user-client\<close>) against the service.
  \<^item> \<^verbatim>\<open>Rollup\<close>: the contracts (\<^verbatim>\<open>contracts/src\<close>), their histories, and the settlement task running against
    them.
  \<^item> \<^verbatim>\<open>Transactions\<close> (\<^verbatim>\<open>zkapp/common\<close>), \<^verbatim>\<open>Intent_Air\<close> (\<^verbatim>\<open>zkapp/zk-prover\<close>), \<^verbatim>\<open>Zk_Core\<close> (\<^verbatim>\<open>zkapp/zk-core\<close>) and
    \<^verbatim>\<open>Simulator\<close> (\<^verbatim>\<open>zkapp/simulator\<close>).

  \<^bold>\<open>Conventions.\<close>  A panic is \<^verbatim>\<open>Inl\<close> of a \<^verbatim>\<open>rust_panic\<close>; an error of the program is a value of its result.
  Code of other crates is an argument of the definitions that use it, and theorems that rely on its
  documented behaviour name it as a hypothesis or a locale; every such theorem has an instance where
  the hypotheses hold.  Time is a number of milliseconds given to each step, randomness an argument.
  There is no fuel: matching recurses on the queues and levels of the book, replay on the log,
  reading on the file, and a handler on the rank of its tasks.

  \<^bold>\<open>Not modelled.\<close>  Sockets and the tokio runtime; its channels only in their order and closing, and in
  \<^verbatim>\<open>Observer\<close> their capacity, so that no task is aborted while it waits for room in a channel under a
  lock.  What a power failure leaves of the log, which is flushed and not synced.  Building the libp2p swarm and random key generation, which are calls of
  libraries.  Serialization formats, which are arguments.  The serde helpers of \<^verbatim>\<open>zk-core\<close>, which hand
  bytes to a generic serializer, and its leaf hash, which is unimplemented.  The constructor of the
  simulator and the queries of \<^verbatim>\<open>alloy_db.rs\<close> that return constants or forward to a node.  What is only
  printed, the build scripts and the tests.
\<close>

end
